theory Spec2Isabelle
  imports Main "HOL-Library.List_Lexorder" "HOL-Library.Product_Lexorder" "HOL-Library.Option_ord"
begin

section \<open>JavaScript strings\<close>

text \<open>
  A JavaScript string is a sequence of UTF-16 code units. It is modelled as a list of
  natural numbers, each below 65536 (\<open>jsstring_ok\<close>); \<open>length\<close> then counts code
  units, as the \<open>length\<close> property of a JavaScript string does. A buffer is a list of
  bytes, natural numbers below 256. String literals of the source are written
  \<open>js ''...''\<close>.
\<close>

type_synonym jsstring = "nat list"
type_synonym bytes = "nat list"

definition js :: "string \<Rightarrow> jsstring" where
  "js s = map of_char s"

definition jsstring_ok :: "jsstring \<Rightarrow> bool" where
  "jsstring_ok s = list_all (\<lambda>c. c < 65536) s"

definition bytes_ok :: "bytes \<Rightarrow> bool" where
  "bytes_ok bs = list_all (\<lambda>b. b < 256) bs"

section \<open>Regular expressions, as far as \<open>HEX_REGEX\<close> needs them\<close>

text \<open>
  \<open>const HEX_REGEX = /^(0x|0h)?[0-9A-F]+$/i\<close>. The pattern is kept as a syntax tree
  and matched by derivatives; \<open>RegExp.prototype.test\<close> on a pattern anchored by
  \<open>^\<close> and \<open>$\<close> (no \<open>m\<close> flag) asks whether the whole string matches.

  The \<open>i\<close> flag without the \<open>u\<close> flag compares canonicalised code units
  (ECMA-262, Canonicalize): the upper-case form, except that a code unit of 128 or
  more is never mapped to one below 128. The pattern here only has ASCII characters,
  so only the ASCII part of the mapping matters: \<open>canonicalize\<close> maps a..z to A..Z
  and leaves every other code unit alone.
\<close>

datatype rx =
    Zero
  | Eps
  | Atom "nat \<Rightarrow> bool"
  | Alt rx rx
  | Seq rx rx
  | Star rx

definition canonicalize :: "nat \<Rightarrow> nat" where
  "canonicalize c = (if 97 \<le> c \<and> c \<le> 122 then c - 32 else c)"

definition chr_i :: "nat \<Rightarrow> rx" where
  \<comment> \<open>a pattern character under the \<open>i\<close> flag\<close>
  "chr_i p = Atom (\<lambda>c. canonicalize c = canonicalize p)"

definition rng_i :: "(nat \<times> nat) list \<Rightarrow> rx" where
  \<comment> \<open>a character class of ranges under the \<open>i\<close> flag\<close>
  "rng_i rs =
     Atom (\<lambda>c. list_ex (\<lambda>(lo, hi). list_ex (\<lambda>p. canonicalize c = canonicalize p) [lo..<Suc hi]) rs)"

definition Opt :: "rx \<Rightarrow> rx" where
  "Opt r = Alt r Eps"

definition PlusR :: "rx \<Rightarrow> rx" where
  "PlusR r = Seq r (Star r)"

fun nullable :: "rx \<Rightarrow> bool" where
  "nullable Zero = False"
| "nullable Eps = True"
| "nullable (Atom p) = False"
| "nullable (Alt r s) = (nullable r \<or> nullable s)"
| "nullable (Seq r s) = (nullable r \<and> nullable s)"
| "nullable (Star r) = True"

fun deriv :: "nat \<Rightarrow> rx \<Rightarrow> rx" where
  "deriv c Zero = Zero"
| "deriv c Eps = Zero"
| "deriv c (Atom p) = (if p c then Eps else Zero)"
| "deriv c (Alt r s) = Alt (deriv c r) (deriv c s)"
| "deriv c (Seq r s) =
     (if nullable r then Alt (Seq (deriv c r) s) (deriv c s) else Seq (deriv c r) s)"
| "deriv c (Star r) = Seq (deriv c r) (Star r)"

fun rx_test :: "rx \<Rightarrow> jsstring \<Rightarrow> bool" where
  "rx_test r [] = nullable r"
| "rx_test r (c # cs) = rx_test (deriv c r) cs"

definition HEX_REGEX :: rx where
  "HEX_REGEX =
     Seq (Opt (Alt (Seq (chr_i 48) (chr_i 120)) (Seq (chr_i 48) (chr_i 104))))
         (PlusR (rng_i [(48, 57), (65, 70)]))"


subsection \<open>The language of a pattern, and the matcher's correctness\<close>

definition conc :: "jsstring set \<Rightarrow> jsstring set \<Rightarrow> jsstring set" where
  "conc A B = {u @ v | u v. u \<in> A \<and> v \<in> B}"

inductive_set star :: "jsstring set \<Rightarrow> jsstring set" for A where
  star_Nil: "[] \<in> star A"
| star_app: "u \<in> A \<Longrightarrow> v \<in> star A \<Longrightarrow> u @ v \<in> star A"

fun lang :: "rx \<Rightarrow> jsstring set" where
  "lang Zero = {}"
| "lang Eps = {[]}"
| "lang (Atom p) = {[c] | c. p c}"
| "lang (Alt r s) = lang r \<union> lang s"
| "lang (Seq r s) = conc (lang r) (lang s)"
| "lang (Star r) = star (lang r)"

lemma nullable_lang: "nullable r \<longleftrightarrow> [] \<in> lang r"
  by (induction r) (auto simp: conc_def intro: star.intros)

lemma star_cons:
  "c # w \<in> star A \<longleftrightarrow> (\<exists>u v. w = u @ v \<and> c # u \<in> A \<and> v \<in> star A)"
proof
  assume "c # w \<in> star A"
  then show "\<exists>u v. w = u @ v \<and> c # u \<in> A \<and> v \<in> star A"
  proof (induction "c # w" arbitrary: rule: star.induct)
    case (star_app u v)
    then show ?case by (cases u) auto
  qed
next
  assume "\<exists>u v. w = u @ v \<and> c # u \<in> A \<and> v \<in> star A"
  then obtain u v where "w = u @ v" "c # u \<in> A" "v \<in> star A" by blast
  then show "c # w \<in> star A" using star.star_app[of "c # u" A v] by simp
qed

lemma conc_cons:
  "c # w \<in> conc A B \<longleftrightarrow>
     ([] \<in> A \<and> c # w \<in> B) \<or> (\<exists>u v. w = u @ v \<and> c # u \<in> A \<and> v \<in> B)"
  by (auto simp: conc_def Cons_eq_append_conv)

lemma deriv_lang: "w \<in> lang (deriv c r) \<longleftrightarrow> c # w \<in> lang r"
proof (induction r arbitrary: w)
  case (Seq r s)
  then show ?case by (auto simp: conc_cons nullable_lang) (auto simp: conc_def)
next
  case (Star r)
  then show ?case by (auto simp: star_cons conc_def)
qed auto

lemma rx_test_lang: "rx_test r w \<longleftrightarrow> w \<in> lang r"
  by (induction w arbitrary: r) (auto simp: nullable_lang deriv_lang)

lemma star_Atom: "w \<in> star {[c] | c. p c} \<longleftrightarrow> list_all p w"
proof
  show "w \<in> star {[c] | c. p c} \<Longrightarrow> list_all p w"
    by (induction rule: star.induct) auto
  show "list_all p w \<Longrightarrow> w \<in> star {[c] | c. p c}"
  proof (induction w)
    case Nil
    show ?case by (rule star_Nil)
  next
    case (Cons c w)
    then have "[c] \<in> {[c] | c. p c}" "w \<in> star {[c] | c. p c}" by auto
    then show ?case using star_app[of "[c]" "{[c] | c. p c}" w] by simp
  qed
qed

lemma PlusR_Atom: "w \<in> lang (PlusR (Atom p)) \<longleftrightarrow> w \<noteq> [] \<and> list_all p w"
proof (cases w)
  case Nil
  then show ?thesis by (simp add: PlusR_def conc_def)
next
  case (Cons c cs)
  have "c # cs \<in> conc {[c] | c. p c} (star {[c] | c. p c}) \<longleftrightarrow> p c \<and> list_all p cs"
    by (auto simp: conc_cons star_Atom)
  then show ?thesis using Cons by (simp add: PlusR_def)
qed

section \<open>Values and the identifier check\<close>

text \<open>
  A value of the source's type \<open>unknown\<close>, and what \<open>JSON.parse\<close> returns. A number
  keeps the text of its literal: the value is a double, which is not modelled.
\<close>

datatype jsval =
    JUndefined
  | JNull
  | JBool bool
  | JNum jsstring
  | JStr jsstring
  | JArr "jsval list"
  | JObj "(jsstring \<times> jsval) list"

definition hexdigit :: "nat \<Rightarrow> bool" where
  \<comment> \<open>0..9, A..F, a..f\<close>
  "hexdigit c = ((48 \<le> c \<and> c \<le> 57) \<or> (65 \<le> c \<and> c \<le> 70) \<or> (97 \<le> c \<and> c \<le> 102))"

definition isObjectId :: "jsval \<Rightarrow> bool" where
  \<comment> \<open>\<open>z.string().safeParse(value)\<close> succeeds exactly on a string\<close>
  "isObjectId v =
     (case v of
        JStr s \<Rightarrow> (let isHex = rx_test HEX_REGEX s in isHex \<and> length s = 24)
      | _ \<Rightarrow> False)"

definition MongoIdSchema :: "jsval \<Rightarrow> jsstring option" where
  \<comment> \<open>\<open>z.string().min(24).refine((val) => isObjectId(val))\<close>: the parsed string, or
      \<open>None\<close> when an issue is raised\<close>
  "MongoIdSchema v =
     (case v of
        JStr s \<Rightarrow> if 24 \<le> length s \<and> isObjectId (JStr s) then Some s else None
      | _ \<Rightarrow> None)"

lemma rng_i_hex: "rng_i [(48, 57), (65, 70)] = Atom hexdigit"
proof -
  have "list_ex (\<lambda>(lo, hi). list_ex (\<lambda>p. canonicalize c = canonicalize p) [lo..<Suc hi])
          [(48, 57), (65, 70)] = hexdigit c" for c
    unfolding hexdigit_def canonicalize_def
    apply simp
    apply presburger
    done
  then show ?thesis by (simp add: rng_i_def)
qed

lemma conc_insert:
  "w \<in> conc (insert u A) C \<longleftrightarrow> (\<exists>v. w = u @ v \<and> v \<in> C) \<or> w \<in> conc A C"
  by (auto simp: conc_def)

lemma conc_Un: "conc (A \<union> B) C = conc A C \<union> conc B C"
  by (auto simp: conc_def)

lemma conc_empty: "conc {} C = {}"
  by (simp add: conc_def)

lemma canonicalize_eq:
  "canonicalize c = canonicalize 48 \<longleftrightarrow> c = 48"
  "canonicalize c = canonicalize 120 \<longleftrightarrow> c = 120 \<or> c = 88"
  "canonicalize c = canonicalize 104 \<longleftrightarrow> c = 104 \<or> c = 72"
  by (auto simp: canonicalize_def)

lemma chr_i_lang:
  "conc (lang (chr_i 48)) (lang (chr_i 120)) = {[48, 120], [48, 88]}"
  "conc (lang (chr_i 48)) (lang (chr_i 104)) = {[48, 104], [48, 72]}"
proof -
  have a: "lang (chr_i 48) = {[48]}" "lang (chr_i 120) = {[120], [88]}"
    "lang (chr_i 104) = {[104], [72]}"
    by (auto simp: chr_i_def canonicalize_eq)
  show "conc (lang (chr_i 48)) (lang (chr_i 120)) = {[48, 120], [48, 88]}"
    "conc (lang (chr_i 48)) (lang (chr_i 104)) = {[48, 104], [48, 72]}"
    unfolding a by (auto simp: conc_insert conc_empty)
qed

lemma HEX_REGEX_lang:
  "s \<in> lang HEX_REGEX \<longleftrightarrow>
     (\<exists>v. (s = 48 # 120 # v \<or> s = 48 # 88 # v \<or> s = 48 # 104 # v \<or> s = 48 # 72 # v \<or> s = v)
        \<and> v \<noteq> [] \<and> list_all hexdigit v)"
proof -
  have "lang HEX_REGEX =
      conc ({[48, 120], [48, 88]} \<union> {[48, 104], [48, 72]} \<union> {[]}) (lang (PlusR (Atom hexdigit)))"
    unfolding HEX_REGEX_def Opt_def rng_i_hex
    by (simp only: lang.simps chr_i_lang)
  then show ?thesis
    by (auto simp: conc_Un conc_insert conc_empty PlusR_Atom)
qed

lemma HEX_REGEX_test:
  "rx_test HEX_REGEX s \<longleftrightarrow>
     (s \<noteq> [] \<and> list_all hexdigit s) \<or>
     (\<exists>p r. s = 48 # p # r \<and> p \<in> {120, 88, 104, 72} \<and> r \<noteq> [] \<and> list_all hexdigit r)"
  unfolding rx_test_lang HEX_REGEX_lang by auto

lemma isObjectId_JStr:
  "isObjectId (JStr s) =
     (length s = 24 \<and>
       (list_all hexdigit s \<or>
        (\<exists>p r. s = 48 # p # r \<and> p \<in> {120, 88, 104, 72} \<and> list_all hexdigit r)))"
  unfolding isObjectId_def by (auto simp: HEX_REGEX_test)

text \<open>
  C10. \<open>isObjectId(s)\<close>, and with it the cursor's id validation \<open>MongoIdSchema\<close>, holds
  exactly for a string of 24 code units that matches \<open>HEX_REGEX\<close>. Such a string is
  either 24 hexadecimal digits, or \<open>0x\<close>/\<open>0h\<close> (in either case) followed by 22
  hexadecimal digits; the strings of the second kind are accepted although they are
  not hexadecimal throughout.
\<close>

theorem isObjectId_characterisation:
  "isObjectId v = (\<exists>s. v = JStr s \<and> length s = 24 \<and> rx_test HEX_REGEX s)
   \<and> (MongoIdSchema v \<noteq> None) = isObjectId v
   \<and> MongoIdSchema v = (if isObjectId v then (case v of JStr s \<Rightarrow> Some s | _ \<Rightarrow> None) else None)
   \<and> isObjectId (JStr s) =
        (length s = 24 \<and>
          (list_all hexdigit s \<or>
           (\<exists>p r. s = 48 # p # r \<and> p \<in> {120, 88, 104, 72} \<and> list_all hexdigit r)))
   \<and> isObjectId (JStr (js ''0x'' @ ds)) = (length ds = 22 \<and> list_all hexdigit ds)
   \<and> isObjectId (JStr (js ''0h'' @ ds)) = (length ds = 22 \<and> list_all hexdigit ds)
   \<and> list_all hexdigit (js ''0x'' @ ds) = False
   \<and> list_all hexdigit (js ''0h'' @ ds) = False"
proof -
  have 1: "isObjectId v = (\<exists>s. v = JStr s \<and> length s = 24 \<and> rx_test HEX_REGEX s)"
    by (cases v) (auto simp: isObjectId_def)
  have 2: "(MongoIdSchema v \<noteq> None) = isObjectId v"
    by (cases v) (auto simp: MongoIdSchema_def isObjectId_def)
  have 3: "MongoIdSchema v = (if isObjectId v then (case v of JStr s \<Rightarrow> Some s | _ \<Rightarrow> None) else None)"
    by (cases v) (auto simp: MongoIdSchema_def isObjectId_def)
  have 5: "isObjectId (JStr (js ''0x'' @ ds)) = (length ds = 22 \<and> list_all hexdigit ds)"
    using isObjectId_JStr[of "48 # 120 # ds"] by (auto simp: js_def hexdigit_def)
  have 6: "isObjectId (JStr (js ''0h'' @ ds)) = (length ds = 22 \<and> list_all hexdigit ds)"
    using isObjectId_JStr[of "48 # 104 # ds"] by (auto simp: js_def hexdigit_def)
  have 7: "list_all hexdigit (js ''0x'' @ ds) = False" "list_all hexdigit (js ''0h'' @ ds) = False"
    by (simp_all add: js_def hexdigit_def)
  show ?thesis
    using 1 2 3 isObjectId_JStr[of s] 5 6 7 by blast
qed


section \<open>The store\<close>

text \<open>
  The document store (\<open>Model.find\<close>, \<open>Model.countDocuments\<close>) is an external
  collaborator. It is modelled by a list of documents and the part of the query
  language that the pagination code writes.

  A document has its primary key and its other fields. The key is the 24-digit
  hexadecimal string that the \<open>id\<close> getter returns for \<open>_id\<close>; on lower-case digits
  the lexicographic order of these strings is the order of the keys. A field holds
  null, a number, a string or a date (milliseconds since the epoch); numbers stand for
  every value that \<open>stringifySortValue\<close> passes to \<open>JSON.stringify\<close>, and are integers
  here. Values are ordered as BSON orders them: null, numbers, strings, dates.
\<close>

datatype sval = VNull | VNum int | VStr jsstring | VDate int

fun sval_rank :: "sval \<Rightarrow> nat" where
  "sval_rank VNull = 0"
| "sval_rank (VNum n) = 1"
| "sval_rank (VStr s) = 2"
| "sval_rank (VDate d) = 3"

fun sval_le :: "sval \<Rightarrow> sval \<Rightarrow> bool" where
  "sval_le (VNum x) (VNum y) = (x \<le> y)"
| "sval_le (VStr x) (VStr y) = (x \<le> y)"
| "sval_le (VDate x) (VDate y) = (x \<le> y)"
| "sval_le a b = (sval_rank a \<le> sval_rank b)"

instantiation sval :: linorder
begin

definition less_eq_sval :: "sval \<Rightarrow> sval \<Rightarrow> bool" where
  "less_eq_sval a b = sval_le a b"

definition less_sval :: "sval \<Rightarrow> sval \<Rightarrow> bool" where
  "less_sval a b = (sval_le a b \<and> \<not> sval_le b a)"

instance
proof
  fix x y z :: sval
  show "(x < y) = (x \<le> y \<and> \<not> y \<le> x)"
    by (simp add: less_sval_def less_eq_sval_def)
  show "x \<le> x"
    by (cases x) (simp_all add: less_eq_sval_def)
  show "x \<le> y \<Longrightarrow> y \<le> z \<Longrightarrow> x \<le> z"
    by (cases x; cases y; cases z) (simp_all add: less_eq_sval_def)
  show "x \<le> y \<Longrightarrow> y \<le> x \<Longrightarrow> x = y"
    by (cases x; cases y) (simp_all add: less_eq_sval_def)
  show "x \<le> y \<or> y \<le> x"
    by (cases x; cases y) (auto simp: less_eq_sval_def)
qed

end

record doc =
  doc_id :: jsstring
  doc_fields :: "(jsstring \<times> sval) list"

definition get_field :: "doc \<Rightarrow> jsstring \<Rightarrow> sval option" where
  \<comment> \<open>the stored value under a path, as the store reads it; \<open>None\<close> when there is none\<close>
  "get_field d name = (if name = js ''_id'' then Some (VStr (doc_id d)) else map_of (doc_fields d) name)"

subsection \<open>Queries\<close>

text \<open>
  The source's types \<open>-1 | 1\<close> and \<open>'$gt' | '$lt'\<close>, and the filter objects it builds.
  An operand is \<open>None\<close> when the source passes \<open>undefined\<close>. \<open>Obj\<close> is a plain query
  object, a list of properties in the order of their insertion; \<open>BaseF\<close> is the
  caller's own filter, known only by the documents it selects.
\<close>

datatype direction = Minus1 | Plus1

datatype cmp_op = Gt | Lt

datatype cond =
    Cmp cmp_op "sval option"
  | Eq "sval option"

datatype filter =
    Obj "(jsstring \<times> cond) list"
  | OrF "filter list"
  | AndF "filter list"
  | BaseF "doc \<Rightarrow> bool"

type_synonym sort_rules = "(jsstring \<times> direction) list"

definition nz :: "sval option \<Rightarrow> sval" where
  \<comment> \<open>a missing field and an undefined operand count as null\<close>
  "nz x = (case x of None \<Rightarrow> VNull | Some a \<Rightarrow> a)"

definition sat_cond :: "cond \<Rightarrow> sval option \<Rightarrow> bool" where
  \<comment> \<open>a comparison only holds between values of one type (type bracketing)\<close>
  "sat_cond c y =
     (case c of
        Cmp Gt x \<Rightarrow> sval_rank (nz y) = sval_rank (nz x) \<and> nz x < nz y
      | Cmp Lt x \<Rightarrow> sval_rank (nz y) = sval_rank (nz x) \<and> nz y < nz x
      | Eq x \<Rightarrow> nz y = nz x)"

fun matches :: "filter \<Rightarrow> doc \<Rightarrow> bool" where
  "matches (Obj ps) d = list_all (\<lambda>(name, c). sat_cond c (get_field d name)) ps"
| "matches (OrF fs) d = list_ex (\<lambda>f. matches f d) fs"
| "matches (AndF fs) d = list_all (\<lambda>f. matches f d) fs"
| "matches (BaseF b) d = b d"

text \<open>
  A compound sort compares the fields of the sort object in their order, each in its
  own direction. The key of a document is the list of its values under these fields,
  each tagged with the direction, and keys are compared lexicographically.
\<close>

datatype dkey = DKey direction sval

fun dkey_le :: "dkey \<Rightarrow> dkey \<Rightarrow> bool" where
  "dkey_le (DKey Plus1 a) (DKey Plus1 b) = (a \<le> b)"
| "dkey_le (DKey Minus1 a) (DKey Minus1 b) = (b \<le> a)"
| "dkey_le (DKey Plus1 a) (DKey Minus1 b) = True"
| "dkey_le (DKey Minus1 a) (DKey Plus1 b) = False"

instantiation dkey :: linorder
begin

definition less_eq_dkey :: "dkey \<Rightarrow> dkey \<Rightarrow> bool" where
  "less_eq_dkey a b = dkey_le a b"

definition less_dkey :: "dkey \<Rightarrow> dkey \<Rightarrow> bool" where
  "less_dkey a b = (dkey_le a b \<and> \<not> dkey_le b a)"

instance
proof
  fix x y z :: dkey
  show "(x < y) = (x \<le> y \<and> \<not> y \<le> x)"
    by (simp add: less_dkey_def less_eq_dkey_def)
  show "x \<le> x"
    unfolding less_eq_dkey_def
    by (cases x; rename_tac a s; case_tac a) auto
  show "x \<le> y \<Longrightarrow> y \<le> z \<Longrightarrow> x \<le> z"
    unfolding less_eq_dkey_def
    by (cases x; cases y; cases z; rename_tac a s b u c w; case_tac a; case_tac b; case_tac c) auto
  show "x \<le> y \<Longrightarrow> y \<le> x \<Longrightarrow> x = y"
    unfolding less_eq_dkey_def
    by (cases x; cases y; rename_tac a s b u; case_tac a; case_tac b) auto
  show "x \<le> y \<or> y \<le> x"
    unfolding less_eq_dkey_def
    by (cases x; cases y; rename_tac a s b u; case_tac a; case_tac b) auto
qed

end

definition sort_key_of :: "sort_rules \<Rightarrow> doc \<Rightarrow> dkey list" where
  "sort_key_of rules d = map (\<lambda>(name, dir). DKey dir (nz (get_field d name))) rules"

definition find_docs :: "doc list \<Rightarrow> filter \<Rightarrow> sort_rules \<Rightarrow> nat \<Rightarrow> doc list" where
  \<comment> \<open>\<open>Model.find(filter, projection, { sort, limit })\<close>\<close>
  "find_docs store f rules n = take n (sort_key (sort_key_of rules) (filter (matches f) store))"

definition countDocuments :: "doc list \<Rightarrow> filter \<Rightarrow> nat" where
  "countDocuments store f = length (filter (matches f) store)"


section \<open>Cursors and the filter builder\<close>

text \<open>
  \<open>DecodedCursor\<close> is \<open>{ id: string, v?: string }\<close>. \<open>ParseSortValueFn\<close> maps the
  text of a sort value to the value (\<open>None\<close> for \<open>undefined\<close>). The third parameter
  of \<open>getFiltersFromCursor\<close> is \<open>{ by: string; parse?: ParseSortValueFn }\<close>.
\<close>

record DecodedCursor =
  cursor_id :: jsstring
  cursor_v :: "jsstring option"

type_synonym ParseSortValueFn = "jsstring \<Rightarrow> sval option"

record SortArg =
  sort_by :: jsstring
  sort_parse :: "ParseSortValueFn option"

fun obj_put :: "('k \<times> 'v) list \<Rightarrow> 'k \<Rightarrow> 'v \<Rightarrow> ('k \<times> 'v) list" where
  \<comment> \<open>defining a property of an object: an existing property keeps its place and
      takes the new value, a new one comes last\<close>
  "obj_put [] k v = [(k, v)]"
| "obj_put ((k', v') # ps) k v = (if k' = k then (k, v) # ps else (k', v') # obj_put ps k v)"

definition getFiltersFromCursor ::
  "DecodedCursor option \<Rightarrow> direction \<times> cmp_op \<Rightarrow> SortArg \<Rightarrow> (doc \<Rightarrow> bool) option
     \<Rightarrow> filter \<times> sort_rules" where
  "getFiltersFromCursor cursor order srt baseFilters =
     (let sortRules =
            (if sort_by srt = js ''_id'' then [(js ''_id'', fst order)]
             else [(sort_by srt, fst order), (js ''_id'', fst order)]);
          withBase = (\<lambda>f. case baseFilters of
                         Some b \<Rightarrow> AndF [f, BaseF b]
                       | None \<Rightarrow> f)
      in case cursor of
           None \<Rightarrow> (withBase (Obj []), sortRules)
         | Some c \<Rightarrow>
             (case cursor_v c of
                Some v \<Rightarrow>
                  (let parsedSortValue =
                         (case sort_parse srt of Some parse \<Rightarrow> parse v | None \<Rightarrow> Some (VStr v))
                   in (withBase
                         (OrF [Obj [(sort_by srt, Cmp (snd order) parsedSortValue)],
                               Obj (obj_put [(sort_by srt, Eq parsedSortValue)] (js ''_id'')
                                      (Cmp (snd order) (Some (VStr (cursor_id c)))))]),
                       sortRules))
              | None \<Rightarrow>
                  (withBase (Obj [(js ''_id'', Cmp (snd order) (Some (VStr (cursor_id c))))]),
                   sortRules)))"

text \<open>
  The platform's functions that turn a date or a number into text are parameters of
  the model: \<open>Date.prototype.toISOString\<close>, \<open>JSON.stringify\<close> on a number, and
  \<open>String\<close> on the number that a JSON literal denotes.
\<close>

record platform =
  toISOString :: "int \<Rightarrow> jsstring"
  JSON_stringify_num :: "int \<Rightarrow> jsstring"
  String_of_num :: "jsstring \<Rightarrow> jsstring"

definition stringifySortValue :: "platform \<Rightarrow> sval option \<Rightarrow> jsstring option" where
  "stringifySortValue P v =
     (case v of
        None \<Rightarrow> None
      | Some VNull \<Rightarrow> None
      | Some (VDate d) \<Rightarrow> Some (toISOString P d)
      | Some (VStr s) \<Rightarrow> Some s
      | Some (VNum n) \<Rightarrow> Some (JSON_stringify_num P n))"

definition op_holds :: "cmp_op \<Rightarrow> 'a::linorder \<Rightarrow> 'a \<Rightarrow> bool" where
  \<comment> \<open>\<open>x operator y\<close>\<close>
  "op_holds op x y = (case op of Gt \<Rightarrow> y < x | Lt \<Rightarrow> x < y)"

definition base_holds :: "(doc \<Rightarrow> bool) option \<Rightarrow> doc \<Rightarrow> bool" where
  "base_holds baseFilters d = (case baseFilters of None \<Rightarrow> True | Some b \<Rightarrow> b d)"

definition parsed_value :: "SortArg \<Rightarrow> jsstring \<Rightarrow> sval option" where
  "parsed_value srt v = (case sort_parse srt of Some parse \<Rightarrow> parse v | None \<Rightarrow> Some (VStr v))"

lemma sat_cond_id:
  "sat_cond (Cmp op (Some (VStr i))) (get_field d (js ''_id'')) = op_holds op (doc_id d) i"
  by (cases op) (simp_all add: sat_cond_def get_field_def nz_def op_holds_def less_sval_def
      less_le_not_le)

lemma matches_withBase:
  "matches (case baseFilters of Some b \<Rightarrow> AndF [f, BaseF b] | None \<Rightarrow> f) d
     = (matches f d \<and> base_holds baseFilters d)"
  by (cases baseFilters) (simp_all add: base_holds_def)

text \<open>
  C6, as the code has it. What \<open>getFiltersFromCursor\<close> builds, read by the store.
  The sort is \<open>{ _id: direction }\<close> when the sort field is \<open>_id\<close>, and
  \<open>{ sortField: direction, _id: direction }\<close> otherwise, with or without a cursor.
  Without a cursor the object built is \<open>{}\<close>, or \<open>{ $and: [{}, baseFilters] }\<close>, and
  selects what the base filter selects (everything, when there is none). With a cursor
  without \<open>v\<close> the filter selects the documents with \<open>_id operator cursor.id\<close> that the
  base filter selects. With a cursor with \<open>v\<close> and a sort field other than \<open>_id\<close> it
  selects the documents with \<open>sortField operator parsed\<close>, or \<open>sortField = parsed\<close> and
  \<open>_id operator cursor.id\<close>, that the base filter selects. With a cursor with \<open>v\<close> and
  the sort field \<open>_id\<close>, the second object of \<open>$or\<close> has the property \<open>_id\<close> twice and
  keeps the later one: the filter selects the documents with \<open>_id operator parsed\<close> or
  \<open>_id operator cursor.id\<close> that the base filter selects.
\<close>

theorem getFiltersFromCursor_meaning:
  "snd (getFiltersFromCursor cursor (dir, op) srt baseFilters) =
     (if sort_by srt = js ''_id'' then [(js ''_id'', dir)]
      else [(sort_by srt, dir), (js ''_id'', dir)])
   \<and> fst (getFiltersFromCursor None (dir, op) srt None) = Obj []
   \<and> fst (getFiltersFromCursor None (dir, op) srt (Some b)) = AndF [Obj [], BaseF b]
   \<and> matches (fst (getFiltersFromCursor None (dir, op) srt baseFilters)) d
        = base_holds baseFilters d
   \<and> matches (fst (getFiltersFromCursor (Some \<lparr>cursor_id = i, cursor_v = None\<rparr>) (dir, op) srt
          baseFilters)) d
        = (op_holds op (doc_id d) i \<and> base_holds baseFilters d)
   \<and> matches (fst (getFiltersFromCursor (Some \<lparr>cursor_id = i, cursor_v = Some v\<rparr>) (dir, op) srt
          baseFilters)) d
        = ((if sort_by srt = js ''_id''
            then sat_cond (Cmp op (parsed_value srt v)) (get_field d (js ''_id''))
                 \<or> op_holds op (doc_id d) i
            else sat_cond (Cmp op (parsed_value srt v)) (get_field d (sort_by srt))
                 \<or> (sat_cond (Eq (parsed_value srt v)) (get_field d (sort_by srt))
                     \<and> op_holds op (doc_id d) i))
           \<and> base_holds baseFilters d)"
  by (simp add: getFiltersFromCursor_def Let_def matches_withBase parsed_value_def
      sat_cond_id[symmetric] split: option.split)


section \<open>The platform's codecs\<close>

text \<open>
  \<open>encodeCursor\<close> and \<open>CursorSchema\<close> go through \<open>JSON.stringify\<close>, \<open>Buffer.from\<close>,
  \<open>Buffer.prototype.toString\<close>, zod's \<open>base64\<close> check and \<open>JSON.parse\<close>. These belong
  to the platform; they are modelled here as their specifications describe them.
\<close>

subsection \<open>Base64\<close>

text \<open>
  \<open>buf.toString('base64')\<close> writes the standard alphabet with padding. zod 3 checks
  a \<open>base64\<close> string against
  \<open>/^([0-9a-zA-Z+/]{4})*(([0-9a-zA-Z+/]{2}==)|([0-9a-zA-Z+/]{3}=))?$/\<close>, which is
  \<open>is_base64\<close>. \<open>Buffer.from(v, 'base64')\<close> is only reached by a string that passed
  the check; \<open>base64_decode\<close> reads groups of four characters up to the padding.
\<close>

definition b64_char :: "nat \<Rightarrow> nat" where
  "b64_char n =
     (if n < 26 then 65 + n
      else if n < 52 then 71 + n
      else if n < 62 then n - 4
      else if n = 62 then 43
      else 47)"

definition b64_val :: "nat \<Rightarrow> nat option" where
  "b64_val c =
     (if 65 \<le> c \<and> c \<le> 90 then Some (c - 65)
      else if 97 \<le> c \<and> c \<le> 122 then Some (c - 71)
      else if 48 \<le> c \<and> c \<le> 57 then Some (c + 4)
      else if c = 43 then Some 62
      else if c = 47 then Some 63
      else None)"

definition b64_alpha :: "nat \<Rightarrow> bool" where
  "b64_alpha c = (b64_val c \<noteq> None)"

definition sextet :: "nat \<Rightarrow> nat" where
  "sextet c = (case b64_val c of Some n \<Rightarrow> n | None \<Rightarrow> 0)"

definition sx1 :: "nat \<Rightarrow> nat" where "sx1 a = a div 4"
definition sx2 :: "nat \<Rightarrow> nat \<Rightarrow> nat" where "sx2 a b = (a mod 4) * 16 + b div 16"
definition sx3 :: "nat \<Rightarrow> nat \<Rightarrow> nat" where "sx3 b c = (b mod 16) * 4 + c div 64"
definition sx4 :: "nat \<Rightarrow> nat" where "sx4 c = c mod 64"

definition byte1 :: "nat \<Rightarrow> nat \<Rightarrow> nat" where "byte1 x y = x * 4 + y div 16"
definition byte2 :: "nat \<Rightarrow> nat \<Rightarrow> nat" where "byte2 y z = (y mod 16) * 16 + z div 4"
definition byte3 :: "nat \<Rightarrow> nat \<Rightarrow> nat" where "byte3 z w = (z mod 4) * 64 + w"

fun base64_encode :: "bytes \<Rightarrow> jsstring" where
  "base64_encode [] = []"
| "base64_encode [a] = [b64_char (sx1 a), b64_char (sx2 a 0), 61, 61]"
| "base64_encode [a, b] = [b64_char (sx1 a), b64_char (sx2 a b), b64_char (sx3 b 0), 61]"
| "base64_encode (a # b # c # rest) =
     b64_char (sx1 a) # b64_char (sx2 a b) # b64_char (sx3 b c) # b64_char (sx4 c)
       # base64_encode rest"

fun is_base64 :: "jsstring \<Rightarrow> bool" where
  "is_base64 [] = True"
| "is_base64 [a, b, c, d] =
     (b64_alpha a \<and> b64_alpha b \<and>
      ((c = 61 \<and> d = 61) \<or> (b64_alpha c \<and> d = 61) \<or> (b64_alpha c \<and> b64_alpha d)))"
| "is_base64 (a # b # c # d # rest) =
     (b64_alpha a \<and> b64_alpha b \<and> b64_alpha c \<and> b64_alpha d \<and> is_base64 rest)"
| "is_base64 _ = False"

fun base64_decode :: "jsstring \<Rightarrow> bytes" where
  "base64_decode (a # b # c # d # rest) =
     (if c = 61 then [byte1 (sextet a) (sextet b)]
      else if d = 61 then [byte1 (sextet a) (sextet b), byte2 (sextet b) (sextet c)]
      else byte1 (sextet a) (sextet b) # byte2 (sextet b) (sextet c)
             # byte3 (sextet c) (sextet d) # base64_decode rest)"
| "base64_decode [a, b, c] =
     (if c = 61 then [byte1 (sextet a) (sextet b)]
      else [byte1 (sextet a) (sextet b), byte2 (sextet b) (sextet c)])"
| "base64_decode [a, b] = [byte1 (sextet a) (sextet b)]"
| "base64_decode _ = []"

lemma sextet_b64_char: "n < 64 \<Longrightarrow> sextet (b64_char n) = n"
  by (auto simp: sextet_def b64_char_def b64_val_def)

lemma b64_alpha_char: "n < 64 \<Longrightarrow> b64_alpha (b64_char n)"
  by (auto simp: b64_alpha_def b64_char_def b64_val_def)

lemma b64_char_not_pad: "b64_char n \<noteq> 61"
  by (auto simp: b64_char_def)

lemma sx_bounds:
  "a < 256 \<Longrightarrow> sx1 a < 64"
  "b < 256 \<Longrightarrow> sx2 a b < 64"
  "c < 256 \<Longrightarrow> sx3 b c < 64"
  "sx4 c < 64"
  unfolding sx1_def sx2_def sx3_def sx4_def by arith+

lemma div_mod_combine:
  "r < m \<Longrightarrow> (q * m + r) div m = q"
  "r < m \<Longrightarrow> (q * m + r) mod m = r"
  for q m r :: nat
  by simp_all

lemma byte_sx1:
  assumes "a < 256" "b < 256" shows "byte1 (sx1 a) (sx2 a b) = a"
proof -
  have "b div 16 < 16" using assms by arith
  then have "((a mod 4) * 16 + b div 16) div 16 = a mod 4" by (rule div_mod_combine)
  then show ?thesis by (simp add: sx1_def sx2_def byte1_def)
qed

lemma byte_sx2:
  assumes "b < 256" "c < 256" shows "byte2 (sx2 a b) (sx3 b c) = b"
proof -
  have "b div 16 < 16" "c div 64 < 4" using assms by arith+
  then have "((a mod 4) * 16 + b div 16) mod 16 = b div 16"
    "((b mod 16) * 4 + c div 64) div 4 = b mod 16" by (simp_all only: div_mod_combine)
  then show ?thesis by (simp add: sx2_def sx3_def byte2_def)
qed

lemma byte_sx3:
  assumes "c < 256" shows "byte3 (sx3 b c) (sx4 c) = c"
proof -
  have "c div 64 < 4" using assms by arith
  then have "((b mod 16) * 4 + c div 64) mod 4 = c div 64" by (rule div_mod_combine)
  then show ?thesis by (simp add: sx3_def sx4_def byte3_def)
qed

lemmas byte_sx = byte_sx1 byte_sx2 byte_sx3

lemma sextet_sx:
  "a < 256 \<Longrightarrow> sextet (b64_char (sx1 a)) = sx1 a"
  "b < 256 \<Longrightarrow> sextet (b64_char (sx2 a b)) = sx2 a b"
  "c < 256 \<Longrightarrow> sextet (b64_char (sx3 b c)) = sx3 b c"
  "sextet (b64_char (sx4 c)) = sx4 c"
  by (simp_all add: sextet_b64_char sx_bounds)

lemma alpha_sx:
  "a < 256 \<Longrightarrow> b64_alpha (b64_char (sx1 a))"
  "b < 256 \<Longrightarrow> b64_alpha (b64_char (sx2 a b))"
  "c < 256 \<Longrightarrow> b64_alpha (b64_char (sx3 b c))"
  "b64_alpha (b64_char (sx4 c))"
  by (simp_all add: b64_alpha_char sx_bounds)

lemma is_base64_encode: "bytes_ok bs \<Longrightarrow> is_base64 (base64_encode bs)"
proof (induction bs rule: base64_encode.induct)
  case 1
  show ?case by simp
next
  case (2 a)
  then show ?case by (simp add: bytes_ok_def alpha_sx)
next
  case (3 a b)
  then show ?case by (simp add: bytes_ok_def alpha_sx)
next
  case (4 a b c rest)
  then have r: "is_base64 (base64_encode rest)" and bd: "a < 256" "b < 256" "c < 256"
    by (simp_all add: bytes_ok_def)
  show ?case
  proof (cases "base64_encode rest")
    case Nil
    then show ?thesis using bd by (simp add: alpha_sx)
  next
    case (Cons x xs)
    then show ?thesis using bd r by (simp add: alpha_sx)
  qed
qed

lemma base64_decode_encode: "bytes_ok bs \<Longrightarrow> base64_decode (base64_encode bs) = bs"
proof (induction bs rule: base64_encode.induct)
  case 1
  show ?case by simp
next
  case (2 a)
  then have bd: "a < 256" by (simp add: bytes_ok_def)
  then show ?case
    using byte_sx1[of a 0] by (simp add: sextet_sx)
next
  case (3 a b)
  then have bd: "a < 256" "b < 256" by (simp_all add: bytes_ok_def)
  then show ?case
    using byte_sx2[of b 0 a] by (simp add: b64_char_not_pad sextet_sx byte_sx)
next
  case (4 a b c rest)
  then have r: "base64_decode (base64_encode rest) = rest" and bd: "a < 256" "b < 256" "c < 256"
    by (simp_all add: bytes_ok_def)
  show ?case
    using bd by (simp add: b64_char_not_pad sextet_sx byte_sx r)
qed

subsection \<open>UTF-8\<close>

text \<open>
  \<open>Buffer.from(string)\<close> encodes the UTF-16 code units of the string as UTF-8: a
  surrogate pair becomes the four bytes of its code point, a lone surrogate the three
  bytes of U+FFFD. \<open>buf.toString('utf8')\<close> decodes as the WHATWG decoder does: a
  malformed sequence yields U+FFFD and decoding resumes at the byte that broke it.
\<close>

definition is_high :: "nat \<Rightarrow> bool" where
  "is_high c = (55296 \<le> c \<and> c \<le> 56319)"

definition is_low :: "nat \<Rightarrow> bool" where
  "is_low c = (56320 \<le> c \<and> c \<le> 57343)"

definition code_point :: "nat \<Rightarrow> nat \<Rightarrow> nat" where
  "code_point hi lo = 65536 + (hi - 55296) * 1024 + (lo - 56320)"

definition surrogates :: "nat \<Rightarrow> jsstring" where
  "surrogates cp = [55296 + (cp - 65536) div 1024, 56320 + (cp - 65536) mod 1024]"

definition enc2 :: "nat \<Rightarrow> bytes" where
  "enc2 c = [192 + c div 64, 128 + c mod 64]"

definition enc3 :: "nat \<Rightarrow> bytes" where
  "enc3 c = [224 + c div 4096, 128 + (c div 64) mod 64, 128 + c mod 64]"

definition enc4 :: "nat \<Rightarrow> bytes" where
  "enc4 cp = [240 + cp div 262144, 128 + (cp div 4096) mod 64, 128 + (cp div 64) mod 64, 128 + cp mod 64]"

fun utf8_encode :: "jsstring \<Rightarrow> bytes" where
  "utf8_encode [] = []"
| "utf8_encode (c # cs) =
     (if c < 128 then c # utf8_encode cs
      else if c < 2048 then enc2 c @ utf8_encode cs
      else if is_high c then
        (case cs of
           d # ds \<Rightarrow>
             if is_low d then enc4 (code_point c d) @ utf8_encode ds
             else enc3 65533 @ utf8_encode cs
         | [] \<Rightarrow> enc3 65533)
      else if is_low c then enc3 65533 @ utf8_encode cs
      else enc3 c @ utf8_encode cs)"

definition cont :: "nat \<Rightarrow> bool" where
  "cont b = (128 \<le> b \<and> b \<le> 191)"

definition lower3 :: "nat \<Rightarrow> nat" where "lower3 b = (if b = 224 then 160 else 128)"
definition upper3 :: "nat \<Rightarrow> nat" where "upper3 b = (if b = 237 then 159 else 191)"
definition lower4 :: "nat \<Rightarrow> nat" where "lower4 b = (if b = 240 then 144 else 128)"
definition upper4 :: "nat \<Rightarrow> nat" where "upper4 b = (if b = 244 then 143 else 191)"

definition dec2 :: "nat \<Rightarrow> nat \<Rightarrow> nat" where
  "dec2 b b1 = (b - 192) * 64 + (b1 - 128)"
definition dec3 :: "nat \<Rightarrow> nat \<Rightarrow> nat \<Rightarrow> nat" where
  "dec3 b b1 b2 = (b - 224) * 4096 + (b1 - 128) * 64 + (b2 - 128)"
definition dec4 :: "nat \<Rightarrow> nat \<Rightarrow> nat \<Rightarrow> nat \<Rightarrow> nat" where
  "dec4 b b1 b2 b3 = (b - 240) * 262144 + (b1 - 128) * 4096 + (b2 - 128) * 64 + (b3 - 128)"

fun utf8_decode :: "bytes \<Rightarrow> jsstring" where
  "utf8_decode [] = []"
| "utf8_decode (b # bs) =
     (if b < 128 then b # utf8_decode bs
      else if 194 \<le> b \<and> b \<le> 223 then
        (case bs of
           b1 # r1 \<Rightarrow> if cont b1 then dec2 b b1 # utf8_decode r1 else 65533 # utf8_decode bs
         | [] \<Rightarrow> [65533])
      else if 224 \<le> b \<and> b \<le> 239 then
        (case bs of
           b1 # r1 \<Rightarrow>
             if lower3 b \<le> b1 \<and> b1 \<le> upper3 b then
               (case r1 of
                  b2 # r2 \<Rightarrow>
                    if cont b2 then dec3 b b1 b2 # utf8_decode r2 else 65533 # utf8_decode r1
                | [] \<Rightarrow> [65533])
             else 65533 # utf8_decode bs
         | [] \<Rightarrow> [65533])
      else if 240 \<le> b \<and> b \<le> 244 then
        (case bs of
           b1 # r1 \<Rightarrow>
             if lower4 b \<le> b1 \<and> b1 \<le> upper4 b then
               (case r1 of
                  b2 # r2 \<Rightarrow>
                    if cont b2 then
                      (case r2 of
                         b3 # r3 \<Rightarrow>
                           if cont b3 then surrogates (dec4 b b1 b2 b3) @ utf8_decode r3
                           else 65533 # utf8_decode r2
                       | [] \<Rightarrow> [65533])
                    else 65533 # utf8_decode r1
                | [] \<Rightarrow> [65533])
             else 65533 # utf8_decode bs
         | [] \<Rightarrow> [65533])
      else 65533 # utf8_decode bs)"

fun wf_utf16 :: "jsstring \<Rightarrow> bool" where
  "wf_utf16 [] = True"
| "wf_utf16 (c # cs) =
     (if is_high c then (case cs of d # ds \<Rightarrow> is_low d \<and> wf_utf16 ds | [] \<Rightarrow> False)
      else if is_low c then False
      else wf_utf16 cs)"

lemma div4096: "c div 4096 = c div 64 div 64" for c :: nat
  using div_mult2_eq[of c 64 64] by simp

lemma div262144: "c div 262144 = c div 4096 div 64" for c :: nat
  using div_mult2_eq[of c 4096 64] by simp

lemma digits3: "c div 4096 * 4096 + (c div 64) mod 64 * 64 + c mod 64 = c" for c :: nat
proof -
  define q where "q = c div 64"
  have "c = q * 64 + c mod 64" by (simp add: q_def)
  moreover have "q = q div 64 * 64 + q mod 64" by simp
  ultimately show ?thesis unfolding div4096 q_def[symmetric] by arith
qed

lemma digits4:
  "c div 262144 * 262144 + (c div 4096) mod 64 * 4096 + (c div 64) mod 64 * 64 + c mod 64 = c"
  for c :: nat
proof -
  define p where "p = c div 4096"
  have "p div 64 * 64 + p mod 64 = p" by simp
  then have "p div 64 * 262144 + p mod 64 * 4096 = p * 4096" by arith
  moreover have "p * 4096 + (c div 64) mod 64 * 64 + c mod 64 = c"
    using digits3[of c] by (simp add: p_def)
  ultimately show ?thesis unfolding div262144 p_def[symmetric] by arith
qed


lemma enc2_facts:
  assumes "128 \<le> c" "c < 2048"
  shows "194 \<le> 192 + c div 64" "192 + c div 64 \<le> 223" "cont (128 + c mod 64)"
    "dec2 (192 + c div 64) (128 + c mod 64) = c"
  using assms by (simp_all add: cont_def dec2_def)

lemma enc3_facts:
  assumes "2048 \<le> c" "c < 65536" "\<not> is_high c" "\<not> is_low c"
  shows "224 \<le> 224 + c div 4096" "224 + c div 4096 \<le> 239"
    "lower3 (224 + c div 4096) \<le> 128 + (c div 64) mod 64"
    "128 + (c div 64) mod 64 \<le> upper3 (224 + c div 4096)"
    "cont (128 + c mod 64)"
    "dec3 (224 + c div 4096) (128 + (c div 64) mod 64) (128 + c mod 64) = c"
proof -
  define x where "x = c div 4096"
  define y where "y = (c div 64) mod 64"
  define z where "z = c mod 64"
  have c: "c = x * 4096 + y * 64 + z" using digits3[of c] by (simp add: x_def y_def z_def)
  have b: "y < 64" "z < 64" by (simp_all add: y_def z_def)
  have r: "c < 55296 \<or> 57344 \<le> c" using assms by (auto simp: is_high_def is_low_def)
  have 1: "x \<le> 15" using c b assms(2) by arith
  have 2: "x = 0 \<Longrightarrow> 32 \<le> y" using c b assms(1) by arith
  have 3: "x = 13 \<Longrightarrow> y \<le> 31" using c b r by arith
  show "224 \<le> 224 + c div 4096" by simp
  show "224 + c div 4096 \<le> 239" using 1 by (simp add: x_def)
  have "lower3 (224 + x) \<le> 128 + y" using 2 by (auto simp: lower3_def)
  then show "lower3 (224 + c div 4096) \<le> 128 + (c div 64) mod 64"
    unfolding x_def y_def .
  have "128 + y \<le> upper3 (224 + x)" using 3 b(1) by (auto simp: upper3_def)
  then show "128 + (c div 64) mod 64 \<le> upper3 (224 + c div 4096)"
    unfolding x_def y_def .
  show "cont (128 + c mod 64)" by (simp add: cont_def)
  show "dec3 (224 + c div 4096) (128 + (c div 64) mod 64) (128 + c mod 64) = c"
    using digits3[of c] by (simp add: dec3_def)
qed


lemma code_point_facts:
  assumes "is_high c" "is_low d"
  shows "65536 \<le> code_point c d" "code_point c d < 1114112"
    "surrogates (code_point c d) = [c, d]"
proof -
  define h where "h = c - 55296"
  define l where "l = d - 56320"
  have hl: "h < 1024" "l < 1024" "c = 55296 + h" "d = 56320 + l"
    using assms by (auto simp: h_def l_def is_high_def is_low_def)
  have cp: "code_point c d = 65536 + (h * 1024 + l)"
    by (simp add: code_point_def h_def l_def)
  show "65536 \<le> code_point c d" by (simp add: cp)
  show "code_point c d < 1114112" using hl(1,2) unfolding cp by arith
  have "(h * 1024 + l) div 1024 = h" "(h * 1024 + l) mod 1024 = l"
    using hl(2) by simp_all
  then have "surrogates (code_point c d) = [55296 + h, 56320 + l]"
    unfolding surrogates_def cp by simp
  then show "surrogates (code_point c d) = [c, d]"
    unfolding hl(3,4)[symmetric] .
qed

lemma enc4_facts:
  assumes "65536 \<le> c" "c < 1114112"
  shows "240 \<le> 240 + c div 262144" "240 + c div 262144 \<le> 244"
    "lower4 (240 + c div 262144) \<le> 128 + (c div 4096) mod 64"
    "128 + (c div 4096) mod 64 \<le> upper4 (240 + c div 262144)"
    "cont (128 + (c div 64) mod 64)"
    "cont (128 + c mod 64)"
    "dec4 (240 + c div 262144) (128 + (c div 4096) mod 64) (128 + (c div 64) mod 64)
       (128 + c mod 64) = c"
proof -
  define w where "w = c div 262144"
  define x where "x = (c div 4096) mod 64"
  define y where "y = (c div 64) mod 64"
  define z where "z = c mod 64"
  have c: "c = w * 262144 + x * 4096 + y * 64 + z"
    using digits4[of c] by (simp add: w_def x_def y_def z_def)
  have b: "x < 64" "y < 64" "z < 64" by (simp_all add: x_def y_def z_def)
  have 1: "w \<le> 4" using c b assms(2) by arith
  have 2: "w = 0 \<Longrightarrow> 16 \<le> x" using c b assms(1) by arith
  have 3: "w = 4 \<Longrightarrow> x \<le> 15" using c b assms(2) by arith
  show "240 \<le> 240 + c div 262144" by simp
  show "240 + c div 262144 \<le> 244" using 1 by (simp add: w_def)
  have "lower4 (240 + w) \<le> 128 + x" using 2 by (auto simp: lower4_def)
  then show "lower4 (240 + c div 262144) \<le> 128 + (c div 4096) mod 64"
    unfolding w_def x_def .
  have "128 + x \<le> upper4 (240 + w)" using 3 b(1) by (auto simp: upper4_def)
  then show "128 + (c div 4096) mod 64 \<le> upper4 (240 + c div 262144)"
    unfolding w_def x_def .
  show "cont (128 + (c div 64) mod 64)" "cont (128 + c mod 64)" by (simp_all add: cont_def)
  show "dec4 (240 + c div 262144) (128 + (c div 4096) mod 64) (128 + (c div 64) mod 64)
       (128 + c mod 64) = c"
    using digits4[of c] by (simp add: dec4_def)
qed


lemma utf8_decode_1: "b < 128 \<Longrightarrow> utf8_decode (b # r) = b # utf8_decode r"
  by simp

lemma utf8_decode_2:
  "194 \<le> b \<Longrightarrow> b \<le> 223 \<Longrightarrow> cont b1 \<Longrightarrow> utf8_decode (b # b1 # r) = dec2 b b1 # utf8_decode r"
  by simp

lemma utf8_decode_3:
  "224 \<le> b \<Longrightarrow> b \<le> 239 \<Longrightarrow> lower3 b \<le> b1 \<Longrightarrow> b1 \<le> upper3 b \<Longrightarrow> cont b2 \<Longrightarrow>
     utf8_decode (b # b1 # b2 # r) = dec3 b b1 b2 # utf8_decode r"
  by simp

lemma utf8_decode_4:
  "240 \<le> b \<Longrightarrow> b \<le> 244 \<Longrightarrow> lower4 b \<le> b1 \<Longrightarrow> b1 \<le> upper4 b \<Longrightarrow> cont b2 \<Longrightarrow> cont b3 \<Longrightarrow>
     utf8_decode (b # b1 # b2 # b3 # r) = surrogates (dec4 b b1 b2 b3) @ utf8_decode r"
  by simp

lemma utf8_decode_enc2:
  assumes "128 \<le> c" "c < 2048"
  shows "utf8_decode (enc2 c @ r) = c # utf8_decode r"
  using utf8_decode_2[OF enc2_facts(1,2,3)[OF assms], of r] enc2_facts(4)[OF assms]
  by (simp add: enc2_def)

lemma utf8_decode_enc3:
  assumes "2048 \<le> c" "c < 65536" "\<not> is_high c" "\<not> is_low c"
  shows "utf8_decode (enc3 c @ r) = c # utf8_decode r"
  using utf8_decode_3[OF enc3_facts(1,2,3,4,5)[OF assms], of r] enc3_facts(6)[OF assms]
  by (simp add: enc3_def)

lemma utf8_decode_enc4:
  assumes "is_high c" "is_low d"
  shows "utf8_decode (enc4 (code_point c d) @ r) = c # d # utf8_decode r"
proof -
  note cp = code_point_facts[OF assms]
  show ?thesis
    using utf8_decode_4[OF enc4_facts(1,2,3,4,5,6)[OF cp(1,2)], of r] enc4_facts(7)[OF cp(1,2)] cp(3)
    by (simp add: enc4_def)
qed

lemma utf8_decode_encode:
  "jsstring_ok s \<Longrightarrow> wf_utf16 s \<Longrightarrow> utf8_decode (utf8_encode s) = s"
proof (induction s rule: utf8_encode.induct)
  case 1
  show ?case by simp
next
  case (2 c cs)
  have ok: "c < 65536" "jsstring_ok cs" using "2.prems"(1) by (simp_all add: jsstring_ok_def)
  consider (a) "c < 128" | (b) "128 \<le> c" "c < 2048" | (h) "2048 \<le> c" "is_high c"
    | (n) "2048 \<le> c" "\<not> is_high c" "\<not> is_low c"
  proof -
    have hl: "is_high c \<Longrightarrow> 2048 \<le> c" by (simp add: is_high_def)
    have nlow: "\<not> is_high c \<Longrightarrow> \<not> is_low c" using "2.prems"(2) by (auto split: if_splits)
    assume "c < 128 \<Longrightarrow> thesis" "128 \<le> c \<Longrightarrow> c < 2048 \<Longrightarrow> thesis"
      "2048 \<le> c \<Longrightarrow> is_high c \<Longrightarrow> thesis"
      "2048 \<le> c \<Longrightarrow> \<not> is_high c \<Longrightarrow> \<not> is_low c \<Longrightarrow> thesis"
    then show thesis using hl nlow
      by (cases "is_high c"; cases "c < 128"; cases "c < 2048") (auto simp: not_less)
  qed
  then show ?case
  proof cases
    case a
    then have "wf_utf16 cs" using "2.prems"(2) by (simp add: is_high_def is_low_def)
    then show ?thesis using a "2.IH"(1) ok by (simp del: utf8_decode.simps)
        (simp add: utf8_decode_1)
  next
    case b
    then have "wf_utf16 cs" using "2.prems"(2) by (simp add: is_high_def is_low_def)
    then show ?thesis using b "2.IH"(2) ok by (simp add: utf8_decode_enc2 del: utf8_decode.simps)
  next
    case h
    then obtain d ds where cs: "cs = d # ds" and d: "is_low d" and wf: "wf_utf16 ds"
      using "2.prems"(2) by (auto split: list.splits)
    have "jsstring_ok ds" using ok cs by (simp add: jsstring_ok_def)
    then have "utf8_decode (utf8_encode ds) = ds"
      using "2.IH"(3)[OF _ _ h(2) cs d] h wf by simp
    then show ?thesis using h cs d
      by (simp add: utf8_decode_enc4 del: utf8_decode.simps)
  next
    case n
    then have "wf_utf16 cs" using "2.prems"(2) by simp
    then have "utf8_decode (utf8_encode cs) = cs" using "2.IH"(6) n ok by simp
    then show ?thesis using n ok
      by (simp add: utf8_decode_enc3 del: utf8_decode.simps)
  qed
qed


lemma mod64_lt128: "x mod 64 < (128::nat)"
  using mod_less_divisor[of 64 x] by linarith

lemma bytes_ok_enc:
  "c < 2048 \<Longrightarrow> bytes_ok (enc2 c)"
  "c < 65536 \<Longrightarrow> bytes_ok (enc3 c)"
  "c < 1114112 \<Longrightarrow> bytes_ok (enc4 c)"
proof -
  show "c < 2048 \<Longrightarrow> bytes_ok (enc2 c)"
    by (simp add: bytes_ok_def enc2_def mod64_lt128)
  show "c < 65536 \<Longrightarrow> bytes_ok (enc3 c)"
    by (simp add: bytes_ok_def enc3_def mod64_lt128)
  show "c < 1114112 \<Longrightarrow> bytes_ok (enc4 c)"
    by (simp add: bytes_ok_def enc4_def mod64_lt128)
qed

lemma bytes_ok_append: "bytes_ok (xs @ ys) = (bytes_ok xs \<and> bytes_ok ys)"
  by (simp add: bytes_ok_def)

lemma bytes_ok_Cons: "bytes_ok (x # xs) = (x < 256 \<and> bytes_ok xs)"
  by (simp add: bytes_ok_def)

lemma bytes_ok_utf8_encode: "jsstring_ok s \<Longrightarrow> bytes_ok (utf8_encode s)"
proof (induction s rule: utf8_encode.induct)
  case 1
  show ?case by (simp add: bytes_ok_def)
next
  case (2 c cs)
  have ok: "c < 65536" "jsstring_ok cs" using "2.prems"(1) by (simp_all add: jsstring_ok_def)
  have r: "bytes_ok (enc3 65533)" by (simp add: bytes_ok_enc)
  show ?case
  proof (cases "is_high c \<and> \<not> c < 2048")
    case True
    show ?thesis
    proof (cases cs)
      case Nil
      then show ?thesis using True r by simp
    next
      case (Cons d ds)
      then have ds: "jsstring_ok ds" using ok by (simp add: jsstring_ok_def)
      show ?thesis
      proof (cases "is_low d")
        case low: True
        have "bytes_ok (utf8_encode ds)" using "2.IH"(3)[OF _ _ _ Cons low] True ds
          by (simp add: is_high_def)
        moreover have "bytes_ok (enc4 (code_point c d))"
          using code_point_facts(2)[of c d] True low by (simp add: bytes_ok_enc)
        ultimately show ?thesis
          unfolding Cons utf8_encode.simps(2)[of c "d # ds"]
          using True low by (simp add: bytes_ok_append is_high_def del: utf8_encode.simps)
      next
        case False
        have "bytes_ok (utf8_encode cs)" using "2.IH"(4)[OF _ _ _ Cons False] True ok Cons
          by (simp add: is_high_def)
        then show ?thesis
          unfolding utf8_encode.simps(2)[of c cs]
          using True False Cons r by (simp add: bytes_ok_append is_high_def del: utf8_encode.simps)
      qed
    qed
  next
    case False
    then have "bytes_ok (utf8_encode cs)" using "2.IH"(1,2,5,6) ok
      by (cases "c < 128"; cases "c < 2048"; cases "is_low c") auto
    then show ?thesis
      unfolding utf8_encode.simps(2)[of c cs]
      using False ok r by (auto simp: bytes_ok_append bytes_ok_Cons bytes_ok_enc simp del: utf8_encode.simps)
  qed
qed

subsection \<open>JSON\<close>

text \<open>
  \<open>QuoteJSONString\<close> (ECMA-262, 25.5.2.3) writes a string literal: the two-character
  escapes, \<open>\uXXXX\<close> for the other control characters and for lone surrogates, and
  every other code unit as it is.

  \<open>JSON.parse\<close> is a tokenizer followed by a pushdown parser over the tokens;
  \<open>None\<close> is the \<open>SyntaxError\<close> it throws. A member whose name occurs twice keeps
  the place of the first and the value of the last, as \<open>CreateDataProperty\<close> does.
\<close>

definition hex_digit :: "nat \<Rightarrow> nat" where
  "hex_digit n = (if n < 10 then 48 + n else 87 + n)"

definition UnicodeEscape :: "nat \<Rightarrow> jsstring" where
  "UnicodeEscape c =
     [92, 117, hex_digit (c div 4096), hex_digit ((c div 256) mod 16),
      hex_digit ((c div 16) mod 16), hex_digit (c mod 16)]"

definition short_escape :: "nat \<Rightarrow> nat option" where
  \<comment> \<open>the single character escape sequences of \<open>QuoteJSONString\<close>:
      \<open>\b\<close>, \<open>\t\<close>, \<open>\n\<close>, \<open>\f\<close>, \<open>\r\<close>, \<open>\"\<close>, \<open>\\\<close>\<close>
  "short_escape c =
     (if c = 8 then Some 98
      else if c = 9 then Some 116
      else if c = 10 then Some 110
      else if c = 12 then Some 102
      else if c = 13 then Some 114
      else if c = 34 then Some 34
      else if c = 92 then Some 92
      else None)"

fun quote_body :: "jsstring \<Rightarrow> jsstring" where
  "quote_body [] = []"
| "quote_body (c # cs) =
     (case short_escape c of
        Some e \<Rightarrow> 92 # e # quote_body cs
      | None \<Rightarrow>
          if c < 32 then UnicodeEscape c @ quote_body cs
          else if is_high c then
            (case cs of
               d # ds \<Rightarrow>
                 if is_low d then c # d # quote_body ds else UnicodeEscape c @ quote_body cs
             | [] \<Rightarrow> UnicodeEscape c)
          else if is_low c then UnicodeEscape c @ quote_body cs
          else c # quote_body cs)"

definition QuoteJSONString :: "jsstring \<Rightarrow> jsstring" where
  "QuoteJSONString s = 34 # quote_body s @ [34]"

definition hex_val :: "nat \<Rightarrow> nat option" where
  "hex_val c =
     (if 48 \<le> c \<and> c \<le> 57 then Some (c - 48)
      else if 97 \<le> c \<and> c \<le> 102 then Some (c - 87)
      else if 65 \<le> c \<and> c \<le> 70 then Some (c - 55)
      else None)"

definition unescape :: "nat \<Rightarrow> nat option" where
  "unescape e =
     (if e = 34 \<or> e = 92 \<or> e = 47 then Some e
      else if e = 98 then Some 8
      else if e = 102 then Some 12
      else if e = 110 then Some 10
      else if e = 114 then Some 13
      else if e = 116 then Some 9
      else None)"

definition hex4 :: "nat \<Rightarrow> nat \<Rightarrow> nat \<Rightarrow> nat \<Rightarrow> nat option" where
  "hex4 h1 h2 h3 h4 =
     (case (hex_val h1, hex_val h2, hex_val h3, hex_val h4) of
        (Some a, Some b, Some c, Some d) \<Rightarrow> Some (a * 4096 + b * 256 + c * 16 + d)
      | _ \<Rightarrow> None)"

definition cons_string :: "nat \<Rightarrow> (jsstring \<times> jsstring) option \<Rightarrow> (jsstring \<times> jsstring) option" where
  "cons_string c r = map_option (\<lambda>(s, rest). (c # s, rest)) r"

fun lex_string :: "jsstring \<Rightarrow> (jsstring \<times> jsstring) option" where
  "lex_string [] = None"
| "lex_string (c # cs) =
     (if c = 34 then Some ([], cs)
      else if c = 92 then
        (case cs of
           [] \<Rightarrow> None
         | e # r \<Rightarrow>
             if e = 117 then
               (case r of
                  h1 # h2 # h3 # h4 # r' \<Rightarrow>
                    (case hex4 h1 h2 h3 h4 of
                       Some u \<Rightarrow> cons_string u (lex_string r')
                     | None \<Rightarrow> None)
                | _ \<Rightarrow> None)
             else
               (case unescape e of
                  Some u \<Rightarrow> cons_string u (lex_string r)
                | None \<Rightarrow> None))
      else if c < 32 then None
      else cons_string c (lex_string cs))"

definition is_digit :: "nat \<Rightarrow> bool" where
  "is_digit c = (48 \<le> c \<and> c \<le> 57)"

definition lex_digits :: "jsstring \<Rightarrow> (jsstring \<times> jsstring) option" where
  \<comment> \<open>one digit or more\<close>
  "lex_digits s =
     (if takeWhile is_digit s = [] then None
      else Some (takeWhile is_digit s, dropWhile is_digit s))"

definition lex_int :: "jsstring \<Rightarrow> (jsstring \<times> jsstring) option" where
  \<comment> \<open>\<open>0\<close>, or a digit other than 0 and more digits\<close>
  "lex_int s = (case s of c # r \<Rightarrow> if c = 48 then Some ([48], r) else lex_digits s | [] \<Rightarrow> None)"

definition lex_frac :: "jsstring \<Rightarrow> (jsstring \<times> jsstring) option" where
  "lex_frac s =
     (case s of
        c # r \<Rightarrow>
          if c = 46 then map_option (\<lambda>(ds, rest). (46 # ds, rest)) (lex_digits r)
          else Some ([], s)
      | [] \<Rightarrow> Some ([], s))"

definition lex_exp :: "jsstring \<Rightarrow> (jsstring \<times> jsstring) option" where
  "lex_exp s =
     (case s of
        e # r \<Rightarrow>
          if e = 101 \<or> e = 69 then
            (case r of
               g # r' \<Rightarrow>
                 if g = 43 \<or> g = 45 then map_option (\<lambda>(ds, rest). (e # g # ds, rest)) (lex_digits r')
                 else map_option (\<lambda>(ds, rest). (e # ds, rest)) (lex_digits r)
             | [] \<Rightarrow> None)
          else Some ([], s)
      | [] \<Rightarrow> Some ([], s))"

definition lex_sign :: "jsstring \<Rightarrow> jsstring \<times> jsstring" where
  "lex_sign s = (case s of c # r \<Rightarrow> if c = 45 then ([45], r) else ([], s) | [] \<Rightarrow> ([], s))"

definition lex_number :: "jsstring \<Rightarrow> (jsstring \<times> jsstring) option" where
  "lex_number s =
     (let (sign, s1) = lex_sign s in
      case lex_int s1 of
        None \<Rightarrow> None
      | Some (ip, s2) \<Rightarrow>
          (case lex_frac s2 of
             None \<Rightarrow> None
           | Some (fp, s3) \<Rightarrow>
               (case lex_exp s3 of
                  None \<Rightarrow> None
                | Some (ep, s4) \<Rightarrow> Some (sign @ ip @ fp @ ep, s4))))"

datatype token =
    TLBrace | TRBrace | TLBracket | TRBracket | TColon | TComma
  | TString jsstring | TNumber jsstring | TLiteral jsval

definition cons_token :: "token \<Rightarrow> token list option \<Rightarrow> token list option" where
  "cons_token t r = map_option (Cons t) r"

lemma lex_string_length: "lex_string s = Some (x, rest) \<Longrightarrow> length rest < length s"
proof (induction s arbitrary: x rest rule: lex_string.induct)
  case 1
  then show ?case by simp
next
  case (2 c cs)
  then show ?case
    by (auto simp: cons_string_def split: if_splits list.splits option.splits) fastforce+
qed


lemma lex_digits_length: "lex_digits s = Some (x, rest) \<Longrightarrow> length rest < length s"
proof -
  assume a: "lex_digits s = Some (x, rest)"
  then have "takeWhile is_digit s \<noteq> []" "rest = dropWhile is_digit s"
    by (auto simp: lex_digits_def split: if_splits)
  moreover have "length (takeWhile is_digit s) + length (dropWhile is_digit s) = length s"
    by (metis length_append takeWhile_dropWhile_id)
  ultimately show ?thesis by (cases "takeWhile is_digit s") auto
qed

lemma lex_int_length: "lex_int s = Some (x, rest) \<Longrightarrow> length rest < length s"
  by (auto simp: lex_int_def split: list.splits if_splits dest: lex_digits_length)

lemma lex_frac_length: "lex_frac s = Some (x, rest) \<Longrightarrow> length rest \<le> length s"
  by (auto simp: lex_frac_def split: list.splits if_splits dest!: lex_digits_length)

lemma lex_exp_length: "lex_exp s = Some (x, rest) \<Longrightarrow> length rest \<le> length s"
  by (auto simp: lex_exp_def split: list.splits if_splits dest!: lex_digits_length)

lemma lex_sign_length: "lex_sign s = (x, rest) \<Longrightarrow> length rest \<le> length s"
  by (auto simp: lex_sign_def split: list.splits if_splits)

lemma lex_number_length:
  assumes "lex_number s = Some (x, rest)" shows "length rest < length s"
proof -
  obtain sign s1 where s1: "lex_sign s = (sign, s1)" by (cases "lex_sign s") auto
  from assms s1 obtain ip s2 fp s3 ep where
    "lex_int s1 = Some (ip, s2)" "lex_frac s2 = Some (fp, s3)" "lex_exp s3 = Some (ep, rest)"
    by (auto simp: lex_number_def split: option.splits prod.splits)
  then show ?thesis
    using lex_sign_length[OF s1] lex_int_length[of s1 ip s2] lex_frac_length[of s2 fp s3]
      lex_exp_length[of s3 ep rest]
    by linarith
qed

function lex :: "jsstring \<Rightarrow> token list option" where
  "lex [] = Some []"
| "lex (c # cs) =
     (if c = 32 \<or> c = 9 \<or> c = 10 \<or> c = 13 then lex cs
      else if c = 123 then cons_token TLBrace (lex cs)
      else if c = 125 then cons_token TRBrace (lex cs)
      else if c = 91 then cons_token TLBracket (lex cs)
      else if c = 93 then cons_token TRBracket (lex cs)
      else if c = 58 then cons_token TColon (lex cs)
      else if c = 44 then cons_token TComma (lex cs)
      else if c = 34 then
        (case lex_string cs of
           Some (s, rest) \<Rightarrow> cons_token (TString s) (lex rest)
         | None \<Rightarrow> None)
      else if c = 45 \<or> is_digit c then
        (case lex_number (c # cs) of
           Some (n, rest) \<Rightarrow> cons_token (TNumber n) (lex rest)
         | None \<Rightarrow> None)
      else if c = 116 \<and> take 3 cs = [114, 117, 101] then
        cons_token (TLiteral (JBool True)) (lex (drop 3 cs))
      else if c = 102 \<and> take 4 cs = [97, 108, 115, 101] then
        cons_token (TLiteral (JBool False)) (lex (drop 4 cs))
      else if c = 110 \<and> take 3 cs = [117, 108, 108] then
        cons_token (TLiteral JNull) (lex (drop 3 cs))
      else None)"
  by pat_completeness auto
termination
proof (relation "measure length")
  show "wf (measure length)" by simp
qed (auto dest: lex_string_length lex_number_length)

datatype frame =
    FArr "jsval list"
  | FObj "(jsstring \<times> jsval) list"
  | FKey "(jsstring \<times> jsval) list" jsstring

datatype pstate =
    PValue | PArrFirst | PArrNext | PObjFirst | PObjKey | PObjColon | PObjNext | PDone jsval

fun reduce :: "jsval \<Rightarrow> frame list \<Rightarrow> (pstate \<times> frame list) option" where
  "reduce v [] = Some (PDone v, [])"
| "reduce v (FArr xs # st) = Some (PArrNext, FArr (xs @ [v]) # st)"
| "reduce v (FKey kvs k # st) = Some (PObjNext, FObj (obj_put kvs k v) # st)"
| "reduce v (FObj kvs # st) = None"

fun close_arr :: "frame list \<Rightarrow> (pstate \<times> frame list) option" where
  "close_arr (FArr xs # st) = reduce (JArr xs) st"
| "close_arr _ = None"

fun close_obj :: "frame list \<Rightarrow> (pstate \<times> frame list) option" where
  "close_obj (FObj kvs # st) = reduce (JObj kvs) st"
| "close_obj _ = None"

fun open_key :: "jsstring \<Rightarrow> frame list \<Rightarrow> (pstate \<times> frame list) option" where
  "open_key k (FObj kvs # st) = Some (PObjColon, FKey kvs k # st)"
| "open_key k _ = None"

fun start_value :: "token \<Rightarrow> frame list \<Rightarrow> (pstate \<times> frame list) option" where
  "start_value (TString s) st = reduce (JStr s) st"
| "start_value (TNumber n) st = reduce (JNum n) st"
| "start_value (TLiteral v) st = reduce v st"
| "start_value TLBracket st = Some (PArrFirst, FArr [] # st)"
| "start_value TLBrace st = Some (PObjFirst, FObj [] # st)"
| "start_value _ st = None"

fun step :: "pstate \<Rightarrow> frame list \<Rightarrow> token \<Rightarrow> (pstate \<times> frame list) option" where
  "step PValue st t = start_value t st"
| "step PArrFirst st TRBracket = close_arr st"
| "step PArrFirst st t = start_value t st"
| "step PArrNext st TComma = Some (PValue, st)"
| "step PArrNext st TRBracket = close_arr st"
| "step PObjFirst st TRBrace = close_obj st"
| "step PObjFirst st (TString k) = open_key k st"
| "step PObjKey st (TString k) = open_key k st"
| "step PObjColon st TColon = Some (PValue, st)"
| "step PObjNext st TComma = Some (PObjKey, st)"
| "step PObjNext st TRBrace = close_obj st"
| "step _ st t = None"

fun run :: "pstate \<Rightarrow> frame list \<Rightarrow> token list \<Rightarrow> jsval option" where
  "run (PDone v) st [] = Some v"
| "run s st [] = None"
| "run s st (t # ts) = (case step s st t of None \<Rightarrow> None | Some (s', st') \<Rightarrow> run s' st' ts)"

definition JSON_parse :: "jsstring \<Rightarrow> jsval option" where
  "JSON_parse s = (case lex s of None \<Rightarrow> None | Some ts \<Rightarrow> run PValue [] ts)"
lemma JSON_parse_example1: "JSON_parse (js ''hello'') = None"
  by (simp add: JSON_parse_def js_def is_digit_def)

lemma JSON_parse_example2: "JSON_parse (js ''{ }'') = Some (JObj [])"
  by (simp add: JSON_parse_def js_def cons_token_def)

lemma JSON_parse_example3: "JSON_parse (js ''[1, [true, null], -2.5e+3, {}]'')
   = Some (JArr [JNum (js ''1''), JArr [JBool True, JNull], JNum (js ''-2.5e+3''), JObj []])"
  by (simp add: JSON_parse_def js_def cons_token_def is_digit_def lex_number_def lex_sign_def lex_int_def
     lex_frac_def lex_exp_def lex_digits_def)

lemma JSON_parse_example4: "JSON_parse (js ''[1,]'') = None"
  by (simp add: JSON_parse_def js_def cons_token_def is_digit_def lex_number_def lex_sign_def lex_int_def
     lex_frac_def lex_exp_def lex_digits_def)



subsection \<open>A quoted string is read back\<close>

lemma div256: "c div 256 = c div 16 div 16" for c :: nat
  using div_mult2_eq[of c 16 16] by simp

lemma div4096_16: "c div 4096 = c div 16 div 16 div 16" for c :: nat
  using div_mult2_eq[of c 256 16] div256[of c] by simp

lemma digits16:
  "c div 4096 * 4096 + (c div 256) mod 16 * 256 + (c div 16) mod 16 * 16 + c mod 16 = c"
  for c :: nat
proof -
  define q where "q = c div 16"
  define p where "p = q div 16"
  have 1: "c = q * 16 + c mod 16" by (simp add: q_def)
  have 2: "q = p * 16 + q mod 16" by (simp add: p_def)
  have 3: "p = p div 16 * 16 + p mod 16" by simp
  have "p div 16 * 4096 + p mod 16 * 256 + q mod 16 * 16 + c mod 16 = c"
    using 1 2 3 by arith
  then show ?thesis
    unfolding div4096_16 div256 q_def[symmetric] p_def[symmetric] .
qed

lemma hex_val_digit: "n < 16 \<Longrightarrow> hex_val (hex_digit n) = Some n"
  by (auto simp: hex_val_def hex_digit_def)

lemma hex4_UnicodeEscape:
  assumes "c < 65536"
  shows "hex4 (hex_digit (c div 4096)) (hex_digit ((c div 256) mod 16))
           (hex_digit ((c div 16) mod 16)) (hex_digit (c mod 16)) = Some c"
proof -
  have "c div 4096 < 16" using assms by arith
  then show ?thesis
    using digits16[of c] by (simp add: hex4_def hex_val_digit)
qed

lemma lex_string_plain:
  "c \<noteq> 34 \<Longrightarrow> c \<noteq> 92 \<Longrightarrow> \<not> c < 32 \<Longrightarrow> lex_string (c # r) = cons_string c (lex_string r)"
  by simp

lemma lex_string_escape:
  "unescape e = Some u \<Longrightarrow> e \<noteq> 117 \<Longrightarrow> lex_string (92 # e # r) = cons_string u (lex_string r)"
  by simp

lemma lex_string_uesc:
  "c < 65536 \<Longrightarrow> lex_string (UnicodeEscape c @ r) = cons_string c (lex_string r)"
  by (simp add: UnicodeEscape_def hex4_UnicodeEscape)

lemma short_escape_Some:
  "short_escape c = Some e \<Longrightarrow> unescape e = Some c \<and> e \<noteq> 117 \<and> e < 128 \<and> c < 128"
  by (auto simp: short_escape_def unescape_def split: if_splits)

lemma short_escape_None:
  "short_escape c = None \<Longrightarrow> c \<noteq> 34 \<and> c \<noteq> 92"
  by (auto simp: short_escape_def split: if_splits)

lemma short_escape_big: "\<not> c < 32 \<Longrightarrow> c \<noteq> 34 \<Longrightarrow> c \<noteq> 92 \<Longrightarrow> short_escape c = None"
  by (auto simp: short_escape_def)

lemma surrogate_big:
  "is_high c \<Longrightarrow> \<not> c < 32 \<and> c \<noteq> 34 \<and> c \<noteq> 92 \<and> c < 65536 \<and> \<not> is_low c"
  "is_low c \<Longrightarrow> \<not> c < 32 \<and> c \<noteq> 34 \<and> c \<noteq> 92 \<and> c < 65536 \<and> \<not> is_high c"
  by (auto simp: is_high_def is_low_def)

text \<open>The shapes of \<open>quote_body\<close>: what it writes first, and where it goes on.\<close>

lemma quote_body_shapes:
  obtains (nil) "s = []"
  | (short) c e cs where "s = c # cs" "short_escape c = Some e"
      "quote_body (c # cs) = 92 # e # quote_body cs"
  | (escaped) c cs where "s = c # cs" "c < 32 \<or> is_high c \<or> is_low c"
      "quote_body (c # cs) = UnicodeEscape c @ quote_body cs"
  | (pair) c d ds where "s = c # d # ds" "is_high c" "is_low d"
      "quote_body (c # d # ds) = c # d # quote_body ds"
  | (plain) c cs where "s = c # cs" "\<not> c < 32" "c \<noteq> 34" "c \<noteq> 92" "\<not> is_high c" "\<not> is_low c"
      "quote_body (c # cs) = c # quote_body cs"
proof (cases s)
  case Nil
  then show ?thesis by (rule nil)
next
  case (Cons c cs)
  show ?thesis
  proof (cases "short_escape c")
    case (Some e)
    then show ?thesis using Cons short[of c cs e] by simp
  next
    case None
    note n = short_escape_None[OF None]
    show ?thesis
    proof (cases "c < 32")
      case True
      then show ?thesis using Cons None escaped[of c cs] by simp
    next
      case c32: False
      show ?thesis
      proof (cases "is_high c")
        case True
        show ?thesis
        proof (cases cs)
          case Nil
          then show ?thesis using Cons None c32 True escaped[of c cs] by simp
        next
          case cs: (Cons d ds)
          show ?thesis
          proof (cases "is_low d")
            case True
            then show ?thesis using Cons cs None c32 \<open>is_high c\<close> pair[of c d ds] by simp
          next
            case False
            then show ?thesis using Cons cs None c32 \<open>is_high c\<close> escaped[of c cs] by simp
          qed
        qed
      next
        case nh: False
        show ?thesis
        proof (cases "is_low c")
          case True
          then show ?thesis using Cons None c32 nh escaped[of c cs] by simp
        next
          case False
          then show ?thesis using Cons None c32 nh n plain[of c cs] by simp
        qed
      qed
    qed
  qed
qed

lemma jsstring_ok_Cons: "jsstring_ok (c # s) = (c < 65536 \<and> jsstring_ok s)"
  by (simp add: jsstring_ok_def)

lemma jsstring_ok_append: "jsstring_ok (a @ b) = (jsstring_ok a \<and> jsstring_ok b)"
  by (simp add: jsstring_ok_def)

lemma wf_utf16_plain: "\<not> is_high c \<Longrightarrow> \<not> is_low c \<Longrightarrow> wf_utf16 (c # s) = wf_utf16 s"
  by simp

lemma wf_utf16_ascii: "c < 128 \<Longrightarrow> wf_utf16 (c # s) = wf_utf16 s"
  by (simp add: is_high_def is_low_def)

lemma wf_utf16_pair: "is_high c \<Longrightarrow> is_low d \<Longrightarrow> wf_utf16 (c # d # s) = wf_utf16 s"
  by simp

lemma hex_digit_ascii: "n < 16 \<Longrightarrow> hex_digit n < 128"
  by (simp add: hex_digit_def)

lemma UnicodeEscape_ascii:
  assumes "c < 65536" shows "list_all (\<lambda>c. c < 128) (UnicodeEscape c)"
proof -
  have "c div 4096 < 16" using assms by arith
  then show ?thesis
    by (simp add: UnicodeEscape_def hex_digit_ascii)
qed

lemma escaped_small: "c < 32 \<or> is_high c \<or> is_low c \<Longrightarrow> c < 65536"
  by (auto simp: is_high_def is_low_def)

lemma wf_utf16_ascii_append: "list_all (\<lambda>c. c < 128) a \<Longrightarrow> wf_utf16 (a @ b) = wf_utf16 b"
  by (induction a) (simp_all add: is_high_def is_low_def)

lemma jsstring_ok_ascii: "list_all (\<lambda>c. c < 128) a \<Longrightarrow> jsstring_ok a"
  by (induction a) (simp_all add: jsstring_ok_def)

lemma wf_utf16_quote_body: "wf_utf16 (quote_body s)"
proof (induction "length s" arbitrary: s rule: less_induct)
  case less
  note [simp del] = quote_body.simps(2) wf_utf16.simps(2)
  show ?case
  proof (cases s rule: quote_body_shapes)
    case nil
    then show ?thesis by simp
  next
    case (short c e cs)
    then have "wf_utf16 (quote_body cs)" using less by simp
    then show ?thesis
      unfolding short(1) short(3) using short_escape_Some[OF short(2)]
      by (simp add: wf_utf16_ascii)
  next
    case (escaped c cs)
    then have "wf_utf16 (quote_body cs)" using less by simp
    then show ?thesis
      unfolding escaped(1) escaped(3)
      using wf_utf16_ascii_append[OF UnicodeEscape_ascii[OF escaped_small[OF escaped(2)]]]
      by simp
  next
    case (pair c d ds)
    then have "wf_utf16 (quote_body ds)" using less by simp
    then show ?thesis
      unfolding pair(1) pair(4) using pair(2,3) by (simp add: wf_utf16_pair)
  next
    case (plain c cs)
    then have "wf_utf16 (quote_body cs)" using less by simp
    then show ?thesis
      unfolding plain(1) plain(7) using plain(5,6) by (simp add: wf_utf16_plain)
  qed
qed

lemma jsstring_ok_quote_body: "jsstring_ok s \<Longrightarrow> jsstring_ok (quote_body s)"
proof (induction "length s" arbitrary: s rule: less_induct)
  case less
  note [simp del] = quote_body.simps(2)
  show ?case
  proof (cases s rule: quote_body_shapes)
    case nil
    then show ?thesis by (simp add: jsstring_ok_def)
  next
    case (short c e cs)
    then have "jsstring_ok (quote_body cs)" using less by (simp add: jsstring_ok_Cons)
    then show ?thesis
      unfolding short(1) short(3) using short_escape_Some[OF short(2)]
      by (simp add: jsstring_ok_Cons)
  next
    case (escaped c cs)
    then have "jsstring_ok (quote_body cs)" using less by (simp add: jsstring_ok_Cons)
    then show ?thesis
      unfolding escaped(1) escaped(3)
      using jsstring_ok_ascii[OF UnicodeEscape_ascii[OF escaped_small[OF escaped(2)]]]
      by (simp add: jsstring_ok_append)
  next
    case (pair c d ds)
    then have "jsstring_ok (quote_body ds)" "c < 65536" "d < 65536"
      using less by (simp_all add: jsstring_ok_Cons)
    then show ?thesis unfolding pair(1) pair(4) by (simp add: jsstring_ok_Cons)
  next
    case (plain c cs)
    then have "jsstring_ok (quote_body cs)" "c < 65536"
      using less by (simp_all add: jsstring_ok_Cons)
    then show ?thesis unfolding plain(1) plain(7) by (simp add: jsstring_ok_Cons)
  qed
qed

lemma lex_string_quote_body:
  "jsstring_ok s \<Longrightarrow> lex_string (quote_body s @ 34 # rest) = Some (s, rest)"
proof (induction "length s" arbitrary: s rule: less_induct)
  case less
  note [simp del] = lex_string.simps(2) quote_body.simps(2)
  show ?case
  proof (cases s rule: quote_body_shapes)
    case nil
    then show ?thesis by (simp add: lex_string.simps(2))
  next
    case (short c e cs)
    then have "lex_string (quote_body cs @ 34 # rest) = Some (cs, rest)"
      using less by (simp add: jsstring_ok_Cons)
    then show ?thesis
      unfolding short(1) short(3) using short_escape_Some[OF short(2)]
      by (simp add: lex_string_escape cons_string_def)
  next
    case (escaped c cs)
    then have "lex_string (quote_body cs @ 34 # rest) = Some (cs, rest)"
      using less by (simp add: jsstring_ok_Cons)
    then show ?thesis
      unfolding escaped(1) escaped(3) using escaped_small[OF escaped(2)]
      by (simp add: lex_string_uesc cons_string_def)
  next
    case (pair c d ds)
    then have "lex_string (quote_body ds @ 34 # rest) = Some (ds, rest)"
      using less by (simp add: jsstring_ok_Cons)
    then show ?thesis
      unfolding pair(1) pair(4)
      using surrogate_big(1)[OF pair(2)] surrogate_big(2)[OF pair(3)]
      by (simp add: lex_string_plain cons_string_def)
  next
    case (plain c cs)
    then have "lex_string (quote_body cs @ 34 # rest) = Some (cs, rest)"
      using less by (simp add: jsstring_ok_Cons)
    then show ?thesis
      unfolding plain(1) plain(7) using plain(2,3,4)
      by (simp add: lex_string_plain cons_string_def)
  qed
qed

section \<open>The cursor codec\<close>

text \<open>
  \<open>encodeCursor\<close> is \<open>Buffer.from(JSON.stringify(cursor)).toString('base64')\<close>.
  \<open>JSON.stringify\<close> of \<open>{ id, v }\<close> writes the members in this order and leaves out a
  member that is \<open>undefined\<close>.

  \<open>decodeCursor\<close> is \<open>CursorSchema.safeParse\<close>: the \<open>base64\<close> check, then the
  transform \<open>JSON.parse(Buffer.from(v, 'base64').toString('utf8'))\<close>, then the object
  schema. zod 3 does not run a transform on a string that failed a check, and does not
  catch what a transform or a coercion throws: an exception leaves \<open>safeParse\<close>, and
  with it \<open>decodeCursor\<close>. The result is \<open>Inl\<close> of the exception, or \<open>Inr\<close> of the
  cursor, \<open>None\<close> for \<open>null\<close>.

  \<open>String(value)\<close>, which the coercion of \<open>v\<close> applies, throws a \<open>TypeError\<close> on an
  object whose own \<open>toString\<close> is not a function, as any \<open>toString\<close> member of a JSON
  text is.
\<close>

definition JSON_stringify_cursor :: "DecodedCursor \<Rightarrow> jsstring" where
  "JSON_stringify_cursor c =
     123 # QuoteJSONString (js ''id'') @ 58 # QuoteJSONString (cursor_id c)
       @ (case cursor_v c of
            None \<Rightarrow> []
          | Some v \<Rightarrow> 44 # QuoteJSONString (js ''v'') @ 58 # QuoteJSONString v)
       @ [125]"

definition encodeCursor :: "DecodedCursor \<Rightarrow> jsstring" where
  "encodeCursor cursor = base64_encode (utf8_encode (JSON_stringify_cursor cursor))"

datatype error = SyntaxError | TypeError

fun js_String :: "platform \<Rightarrow> jsval \<Rightarrow> error + jsstring"
  and js_join :: "platform \<Rightarrow> jsval list \<Rightarrow> error + jsstring" where
  "js_String P JUndefined = Inr (js ''undefined'')"
| "js_String P JNull = Inr (js ''null'')"
| "js_String P (JBool b) = Inr (if b then js ''true'' else js ''false'')"
| "js_String P (JNum n) = Inr (String_of_num P n)"
| "js_String P (JStr s) = Inr s"
| "js_String P (JArr xs) = js_join P xs"
| "js_String P (JObj kvs) =
     (if js ''toString'' \<in> set (map fst kvs) then Inl TypeError
      else Inr (js ''[object Object]''))"
| "js_join P [] = Inr []"
| "js_join P (x # xs) =
     (case (if x = JNull \<or> x = JUndefined then Inr [] else js_String P x) of
        Inl e \<Rightarrow> Inl e
      | Inr s \<Rightarrow>
          if xs = [] then Inr s
          else (case js_join P xs of Inl e \<Rightarrow> Inl e | Inr r \<Rightarrow> Inr (s @ 44 # r)))"

definition obj_get :: "(jsstring \<times> jsval) list \<Rightarrow> jsstring \<Rightarrow> jsval" where
  "obj_get kvs k = (case map_of kvs k of None \<Rightarrow> JUndefined | Some x \<Rightarrow> x)"

definition optional_string :: "platform \<Rightarrow> jsval \<Rightarrow> error + jsstring option" where
  \<comment> \<open>\<open>z.string({ coerce: true }).optional()\<close>\<close>
  "optional_string P x =
     (if x = JUndefined then Inr None
      else (case js_String P x of Inl e \<Rightarrow> Inl e | Inr s \<Rightarrow> Inr (Some s)))"

definition CursorObject :: "platform \<Rightarrow> jsval \<Rightarrow> error + DecodedCursor option" where
  \<comment> \<open>\<open>z.object({ id: MongoIdSchema, v: z.string({ coerce: true }).optional() })\<close>\<close>
  "CursorObject P j =
     (case j of
        JObj kvs \<Rightarrow>
          (let id_result = MongoIdSchema (obj_get kvs (js ''id'')) in
           case optional_string P (obj_get kvs (js ''v'')) of
             Inl e \<Rightarrow> Inl e
           | Inr v \<Rightarrow>
               (case id_result of
                  None \<Rightarrow> Inr None
                | Some i \<Rightarrow> Inr (Some \<lparr>cursor_id = i, cursor_v = v\<rparr>)))
      | _ \<Rightarrow> Inr None)"

definition CursorSchema :: "platform \<Rightarrow> jsstring \<Rightarrow> error + DecodedCursor option" where
  "CursorSchema P v =
     (if \<not> is_base64 v then Inr None
      else (case JSON_parse (utf8_decode (base64_decode v)) of
              None \<Rightarrow> Inl SyntaxError
            | Some j \<Rightarrow> CursorObject P j))"

definition decodeCursor :: "platform \<Rightarrow> jsstring \<Rightarrow> error + DecodedCursor option" where
  "decodeCursor P encoded =
     (case CursorSchema P encoded of
        Inl e \<Rightarrow> Inl e
      | Inr None \<Rightarrow> Inr None
      | Inr (Some d) \<Rightarrow> Inr (Some d))"


lemma lex_QuoteJSONString:
  "jsstring_ok s \<Longrightarrow> lex (QuoteJSONString s @ rest) = cons_token (TString s) (lex rest)"
  by (simp add: QuoteJSONString_def lex_string_quote_body)

lemma lex_punct:
  "lex (123 # r) = cons_token TLBrace (lex r)"
  "lex (125 # r) = cons_token TRBrace (lex r)"
  "lex (58 # r) = cons_token TColon (lex r)"
  "lex (44 # r) = cons_token TComma (lex r)"
  by simp_all

lemma js_ok: "jsstring_ok (js ''id'')" "jsstring_ok (js ''v'')"
  by (simp_all add: js_def jsstring_ok_def)

lemma isObjectId_ok: "isObjectId (JStr i) \<Longrightarrow> jsstring_ok i"
proof -
  have h: "list_all hexdigit r \<Longrightarrow> jsstring_ok r" for r
    by (induction r) (auto simp: jsstring_ok_def hexdigit_def)
  assume "isObjectId (JStr i)"
  then show ?thesis
    unfolding isObjectId_JStr using h by (auto simp: jsstring_ok_Cons)
qed

lemma lex_stringify:
  assumes "jsstring_ok (cursor_id c)" "case cursor_v c of None \<Rightarrow> True | Some v \<Rightarrow> jsstring_ok v"
  shows "lex (JSON_stringify_cursor c) =
     Some ([TLBrace, TString (js ''id''), TColon, TString (cursor_id c)]
           @ (case cursor_v c of None \<Rightarrow> []
              | Some v \<Rightarrow> [TComma, TString (js ''v''), TColon, TString v])
           @ [TRBrace])"
proof (cases "cursor_v c")
  case None
  have "lex (JSON_stringify_cursor c) =
      cons_token TLBrace (cons_token (TString (js ''id'')) (cons_token TColon
        (cons_token (TString (cursor_id c)) (cons_token TRBrace (lex [])))))"
    unfolding JSON_stringify_cursor_def None option.case append_Nil append_Cons
    by (simp only: lex_punct lex_QuoteJSONString[OF js_ok(1)] lex_QuoteJSONString[OF assms(1)])
  then show ?thesis by (simp add: None cons_token_def)
next
  case (Some v)
  then have v: "jsstring_ok v" using assms(2) by simp
  have "lex (JSON_stringify_cursor c) =
      cons_token TLBrace (cons_token (TString (js ''id'')) (cons_token TColon
        (cons_token (TString (cursor_id c)) (cons_token TComma (cons_token (TString (js ''v''))
          (cons_token TColon (cons_token (TString v) (cons_token TRBrace (lex [])))))))))"
    unfolding JSON_stringify_cursor_def Some option.case append_Nil append_Cons append_assoc
    by (simp only: lex_punct lex_QuoteJSONString[OF js_ok(1)] lex_QuoteJSONString[OF assms(1)]
        lex_QuoteJSONString[OF js_ok(2)] lex_QuoteJSONString[OF v] append_Cons append_Nil)
  then show ?thesis by (simp add: Some cons_token_def)
qed

lemma jsstring_ok_Nil: "jsstring_ok []"
  by (simp add: jsstring_ok_def)

lemma js_id_ne_v: "js ''id'' \<noteq> js ''v''" "js ''v'' \<noteq> js ''id''"
  by (simp_all add: js_def)

lemma JSON_parse_stringify:
  assumes "jsstring_ok (cursor_id c)" "case cursor_v c of None \<Rightarrow> True | Some v \<Rightarrow> jsstring_ok v"
  shows "JSON_parse (JSON_stringify_cursor c) =
     Some (JObj ((js ''id'', JStr (cursor_id c))
                 # (case cursor_v c of None \<Rightarrow> [] | Some v \<Rightarrow> [(js ''v'', JStr v)])))"
  unfolding JSON_parse_def lex_stringify[OF assms]
  by (cases "cursor_v c") (simp_all add: js_id_ne_v)

lemma QuoteJSONString_ok:
  "jsstring_ok s \<Longrightarrow> jsstring_ok (QuoteJSONString s)"
  "wf_utf16 (QuoteJSONString s @ r) = wf_utf16 r"
proof -
  show "jsstring_ok s \<Longrightarrow> jsstring_ok (QuoteJSONString s)"
    by (simp add: QuoteJSONString_def jsstring_ok_Cons jsstring_ok_append jsstring_ok_quote_body
        jsstring_ok_Nil)
  have a: "wf_utf16 (x @ y) = wf_utf16 y" if "wf_utf16 x" for x y
    using that
  proof (induction x rule: wf_utf16.induct)
    case 1
    show ?case by simp
  next
    case (2 c cs)
    then show ?case by (cases cs) (auto split: if_splits)
  qed
  show "wf_utf16 (QuoteJSONString s @ r) = wf_utf16 r"
    unfolding QuoteJSONString_def
    using a[OF wf_utf16_quote_body, of s "34 # r"]
    by (simp add: wf_utf16_ascii del: wf_utf16.simps(2))
qed

lemma stringify_ok:
  assumes "jsstring_ok (cursor_id c)" "case cursor_v c of None \<Rightarrow> True | Some v \<Rightarrow> jsstring_ok v"
  shows "jsstring_ok (JSON_stringify_cursor c)" "wf_utf16 (JSON_stringify_cursor c)"
proof -
  show "jsstring_ok (JSON_stringify_cursor c)"
    using assms
    by (cases "cursor_v c")
      (simp_all add: JSON_stringify_cursor_def jsstring_ok_Cons jsstring_ok_append
        QuoteJSONString_ok(1) js_ok jsstring_ok_Nil)
  show "wf_utf16 (JSON_stringify_cursor c)"
    by (cases "cursor_v c")
      (simp_all add: JSON_stringify_cursor_def wf_utf16_ascii QuoteJSONString_ok(2)
        del: wf_utf16.simps(2))
qed

lemma CursorObject_stringify:
  assumes "isObjectId (JStr (cursor_id c))"
  shows "CursorObject P (JObj ((js ''id'', JStr (cursor_id c))
           # (case cursor_v c of None \<Rightarrow> [] | Some v \<Rightarrow> [(js ''v'', JStr v)])))
         = Inr (Some (c :: DecodedCursor))"
proof -
  have "24 \<le> length (cursor_id c)" using assms by (simp add: isObjectId_JStr)
  then have m: "MongoIdSchema (JStr (cursor_id c)) = Some (cursor_id c)"
    using assms by (simp add: MongoIdSchema_def)
  show ?thesis
    by (cases "cursor_v c")
      (simp_all add: CursorObject_def obj_get_def optional_string_def m js_id_ne_v)
qed

lemma decode_encode:
  assumes "isObjectId (JStr (cursor_id c))"
    and "case cursor_v c of None \<Rightarrow> True | Some v \<Rightarrow> jsstring_ok v"
  shows "decodeCursor P (encodeCursor c) = Inr (Some (c :: DecodedCursor))"
proof -
  note ok = isObjectId_ok[OF assms(1)] assms(2)
  let ?text = "JSON_stringify_cursor c"
  have b: "bytes_ok (utf8_encode ?text)"
    by (rule bytes_ok_utf8_encode[OF stringify_ok(1)[OF ok]])
  have 1: "is_base64 (encodeCursor c)"
    unfolding encodeCursor_def by (rule is_base64_encode[OF b])
  have 2: "base64_decode (encodeCursor c) = utf8_encode ?text"
    unfolding encodeCursor_def by (rule base64_decode_encode[OF b])
  have 3: "utf8_decode (utf8_encode ?text) = ?text"
    by (rule utf8_decode_encode[OF stringify_ok[OF ok]])
  show ?thesis
    unfolding decodeCursor_def CursorSchema_def
    by (simp add: 1 2 3 JSON_parse_stringify[OF ok] CursorObject_stringify[OF assms(1)])
qed



section \<open>Resolving the query\<close>

text \<open>
  \<open>PaginationFields\<close> is a validated request. \<open>_getQuery\<close> is \<open>getQuery\<close> here;
  its result is \<open>{ filter, cursor, sort, order, reverse, limit }\<close>, or what
  \<open>decodeCursor\<close> threw. The fields \<open>current\<close>, \<open>next\<close> and \<open>prev\<close> of
  \<open>QueryOrderResult\<close> are \<open>order_current\<close>, \<open>order_next\<close> and \<open>order_prev\<close>;
  \<open>Minus1\<close> is descending, \<open>Plus1\<close> ascending, \<open>Gt\<close> is \<open>$gt\<close>, \<open>Lt\<close> is \<open>$lt\<close>.
\<close>

datatype SortOrderType = Asc | Desc

record PaginationFields =
  nextCursor :: "jsstring option"
  prevCursor :: "jsstring option"
  order :: SortOrderType
  limit :: nat
  sortBy :: jsstring

record QueryOrderResult =
  order_current :: "direction \<times> cmp_op"
  order_next :: "direction \<times> cmp_op"
  order_prev :: "direction \<times> cmp_op"

record PaginateOpts =
  pagination :: PaginationFields
  filters :: "(doc \<Rightarrow> bool) option"
  parseSortValue :: "ParseSortValueFn option"

record Query =
  q_filter :: filter
  q_cursor :: "DecodedCursor option"
  q_sort :: sort_rules
  q_order :: QueryOrderResult
  q_reverse :: bool
  q_limit :: nat

record Paginated =
  data :: "doc list"
  totalCount :: nat
  next_cursor :: "jsstring option"
  prev_cursor :: "jsstring option"

definition truthy :: "jsstring option \<Rightarrow> jsstring option" where
  \<comment> \<open>\<open>if (s)\<close> on \<open>string | undefined\<close>: the string, when it is defined and not empty\<close>
  "truthy s = (case s of None \<Rightarrow> None | Some t \<Rightarrow> if t = [] then None else Some t)"

definition getQuery ::
  "platform \<Rightarrow> PaginationFields \<Rightarrow> ParseSortValueFn option \<Rightarrow> (doc \<Rightarrow> bool) option
     \<Rightarrow> error + Query" where
  "getQuery P query parse baseFilters =
     (let order0 =
            \<lparr>order_current = (if order query = Desc then (Minus1, Gt) else (Plus1, Lt)),
             order_next = (if order query = Desc then (Plus1, Lt) else (Minus1, Gt)),
             order_prev = (if order query = Desc then (Minus1, Gt) else (Plus1, Lt))\<rparr>;
          finish = (\<lambda>cursor ord reverse.
            (let (f, srt) = getFiltersFromCursor cursor (order_current ord)
                              \<lparr>sort_by = sortBy query, sort_parse = parse\<rparr> baseFilters
             in \<lparr>q_filter = f, q_cursor = cursor, q_sort = srt, q_order = ord,
                  q_reverse = reverse, q_limit = limit query\<rparr>))
      in case truthy (prevCursor query) of
           Some t \<Rightarrow>
             (case decodeCursor P t of
                Inl e \<Rightarrow> Inl e
              | Inr cursor \<Rightarrow>
                  Inr (finish cursor
                         (order0\<lparr>order_current :=
                            (if order query = Desc then (Plus1, Gt) else (Minus1, Lt))\<rparr>)
                         True))
         | None \<Rightarrow>
             (case truthy (nextCursor query) of
                Some t \<Rightarrow>
                  (case decodeCursor P t of
                     Inl e \<Rightarrow> Inl e
                   | Inr cursor \<Rightarrow>
                       Inr (finish cursor
                              (order0\<lparr>order_current :=
                                 (if order query = Desc then (Minus1, Lt) else (Plus1, Gt))\<rparr>)
                              False))
              | None \<Rightarrow> Inr (finish None order0 False)))"

section \<open>The orchestrator\<close>

text \<open>
  \<open>paginate\<close> on a store in a fixed state. \<open>queryOpts\<close> and \<open>projection\<close> are passed
  to \<open>find\<close> untouched and are taken not to change which documents it returns, nor the
  fields the code reads from them. \<open>respond\<close> is the body of \<open>paginate\<close> after
  \<open>_getQuery\<close> has returned. In the result, \<open>next_cursor\<close> and \<open>prev_cursor\<close> are
  \<open>nextCursor\<close> and \<open>prevCursor\<close>, \<open>None\<close> for \<open>null\<close>.

  The code reads a fetched document through its properties: \<open>doc.id\<close> for the key and
  \<open>doc[sortBy]\<close> for the sort value. \<open>doc_prop\<close> is this read on the hydrated document:
  the property \<open>id\<close> is the getter that returns the key as a string, whatever the store
  holds under a path of that name, and every other name reads the stored value.
\<close>

definition doc_prop :: "doc \<Rightarrow> jsstring \<Rightarrow> sval option" where
  \<comment> \<open>\<open>doc[name]\<close>; \<open>None\<close> is \<open>undefined\<close>\<close>
  "doc_prop d name = (if name = js ''id'' then Some (VStr (doc_id d)) else get_field d name)"

definition doc_cursor :: "platform \<Rightarrow> jsstring \<Rightarrow> doc \<Rightarrow> DecodedCursor" where
  \<comment> \<open>\<open>{ id: doc.id, v: sortBy !== '_id' ? stringifySortValue(doc[sortBy]) : undefined }\<close>\<close>
  "doc_cursor P by d =
     \<lparr>cursor_id = doc_id d,
      cursor_v = (if by \<noteq> js ''_id'' then stringifySortValue P (doc_prop d by) else None)\<rparr>"

definition respond :: "platform \<Rightarrow> doc list \<Rightarrow> PaginateOpts \<Rightarrow> Query \<Rightarrow> Paginated" where
  \<comment> \<open>\<open>paginate\<close> from the call of \<open>find\<close> on\<close>
  "respond P store opts query =
     (let found = find_docs store (q_filter query) (q_sort query) (q_limit query);
          docs = (if q_reverse query then rev found else found);
          srt = \<lparr>sort_by = sortBy (pagination opts), sort_parse = parseSortValue opts\<rparr>
      in if docs = [] then
           \<lparr>data = docs, totalCount = length docs, next_cursor = None, prev_cursor = None\<rparr>
         else
           (let nextCandidate =
                  (if length docs = limit (pagination opts)
                   then Some (doc_cursor P (sortBy (pagination opts)) (last docs)) else None);
                nextCount =
                  (case nextCandidate of
                     None \<Rightarrow> 0
                   | Some c \<Rightarrow>
                       countDocuments store
                         (fst (getFiltersFromCursor (Some c) (order_next (q_order query)) srt
                                 (filters opts))));
                nextCursor = (if nextCount = 0 then None else nextCandidate);
                prevCandidate = doc_cursor P (sortBy (pagination opts)) (hd docs);
                prevCount =
                  countDocuments store
                    (fst (getFiltersFromCursor (Some prevCandidate) (order_prev (q_order query)) srt
                            (filters opts)));
                prevCursor = (if prevCount = 0 then None else Some prevCandidate)
            in \<lparr>data = docs,
                 totalCount = length docs + nextCount + prevCount,
                 next_cursor = map_option encodeCursor nextCursor,
                 prev_cursor = map_option encodeCursor prevCursor\<rparr>))"

definition paginate :: "platform \<Rightarrow> doc list \<Rightarrow> PaginateOpts \<Rightarrow> error + Paginated" where
  "paginate P store opts =
     (case getQuery P (pagination opts) (parseSortValue opts) (filters opts) of
        Inl e \<Rightarrow> Inl e
      | Inr query \<Rightarrow> Inr (respond P store opts query))"

section \<open>Example data\<close>

text \<open>
  A platform, a cursor and a store of three documents, for the concrete instances
  below. The store holds \<open>doc_b\<close>, \<open>doc_a\<close>, \<open>doc_c\<close> with keys \<open>aaa\<dots>\<close>, \<open>bbb\<dots>\<close>,
  \<open>ccc\<dots>\<close>; \<open>request3\<close> asks for pages of two in descending order of \<open>_id\<close>.
\<close>

definition P0 :: platform where
  "P0 = \<lparr>toISOString = (\<lambda>d. []), JSON_stringify_num = (\<lambda>n. []), String_of_num = (\<lambda>s. s)\<rparr>"

definition c0 :: DecodedCursor where
  "c0 = \<lparr>cursor_id = js ''507f1f77bcf86cd799439011'', cursor_v = None\<rparr>"

lemma c0_valid: "isObjectId (JStr (cursor_id c0))" "case cursor_v c0 of None \<Rightarrow> True | Some v \<Rightarrow> jsstring_ok v"
  by (simp_all add: c0_def isObjectId_JStr js_def hexdigit_def)


lemma base64_encode_Nil: "base64_encode bs = [] \<longleftrightarrow> bs = []"
  by (cases bs rule: base64_encode.cases) simp_all

lemma encodeCursor_nonempty: "encodeCursor c \<noteq> []"
  by (simp add: encodeCursor_def JSON_stringify_cursor_def base64_encode_Nil)

lemma truthy_None: "truthy None = None"
  by (simp add: truthy_def)

lemma truthy_encode: "truthy (Some (encodeCursor c)) = Some (encodeCursor c)"
  by (simp add: truthy_def encodeCursor_nonempty)

definition id_a :: jsstring where "id_a = js ''aaaaaaaaaaaaaaaaaaaaaaaa''"
definition id_b :: jsstring where "id_b = js ''bbbbbbbbbbbbbbbbbbbbbbbb''"
definition id_c :: jsstring where "id_c = js ''cccccccccccccccccccccccc''"

definition doc_a :: doc where "doc_a = \<lparr>doc_id = id_a, doc_fields = []\<rparr>"
definition doc_b :: doc where "doc_b = \<lparr>doc_id = id_b, doc_fields = []\<rparr>"
definition doc_c :: doc where "doc_c = \<lparr>doc_id = id_c, doc_fields = []\<rparr>"

definition store3 :: "doc list" where "store3 = [doc_b, doc_a, doc_c]"

definition request3 :: "jsstring option \<Rightarrow> jsstring option \<Rightarrow> PaginateOpts" where
  "request3 nxt prv =
     \<lparr>pagination = \<lparr>nextCursor = nxt, prevCursor = prv, order = Desc, limit = 2, sortBy = js ''_id''\<rparr>,
      filters = None, parseSortValue = None\<rparr>"

lemma ids_less: "id_a < id_b" "id_b < id_c" "id_a < id_c"
  "\<not> id_b < id_a" "\<not> id_c < id_b" "\<not> id_c < id_a" "\<not> id_a < id_a" "\<not> id_b < id_b" "\<not> id_c < id_c"
  "id_a \<noteq> id_b" "id_b \<noteq> id_c" "id_a \<noteq> id_c"  "id_b \<noteq> id_a" "id_c \<noteq> id_b" "id_c \<noteq> id_a"
  by (simp_all add: id_a_def id_b_def id_c_def js_def)

lemma ids_valid:
  "isObjectId (JStr id_a)" "isObjectId (JStr id_b)" "isObjectId (JStr id_c)"
  by (simp_all add: id_a_def id_b_def id_c_def isObjectId_JStr js_def hexdigit_def)

lemma not_id: "id_a \<noteq> js ''_id''" 
  by (simp_all add: id_a_def js_def)

lemma sval_less_simps [simp]:
  "VStr x < VStr y \<longleftrightarrow> x < y" "VStr x \<le> VStr y \<longleftrightarrow> x \<le> y"
  "VNum m < VNum n \<longleftrightarrow> m < n" "VNum m \<le> VNum n \<longleftrightarrow> m \<le> n"
  "VDate m < VDate n \<longleftrightarrow> m < n" "VDate m \<le> VDate n \<longleftrightarrow> m \<le> n"
  by (auto simp: less_sval_def less_eq_sval_def)

lemma dkey_less_simps [simp]:
  "DKey Plus1 a < DKey Plus1 b \<longleftrightarrow> a < b" "DKey Plus1 a \<le> DKey Plus1 b \<longleftrightarrow> a \<le> b"
  "DKey Minus1 a < DKey Minus1 b \<longleftrightarrow> b < a" "DKey Minus1 a \<le> DKey Minus1 b \<longleftrightarrow> b \<le> a"
  by (auto simp: less_dkey_def less_eq_dkey_def)

lemma find_all_desc:
  "find_docs store3 (Obj []) [(js ''_id'', Minus1)] 2 = [doc_c, doc_b]"
  using ids_less
  by (simp add: find_docs_def store3_def sort_key_of_def get_field_def nz_def
      doc_a_def doc_b_def doc_c_def)

lemma find_all_asc:
  "find_docs store3 (Obj []) [(js ''_id'', Plus1)] 2 = [doc_a, doc_b]"
  using ids_less
  by (simp add: find_docs_def store3_def sort_key_of_def get_field_def nz_def
      doc_a_def doc_b_def doc_c_def)

definition cur_b :: DecodedCursor where
  "cur_b = \<lparr>cursor_id = id_b, cursor_v = None\<rparr>"

lemma cur_b_valid:
  "isObjectId (JStr (cursor_id cur_b))" "case cursor_v cur_b of None \<Rightarrow> True | Some v \<Rightarrow> jsstring_ok v"
  by (simp_all add: cur_b_def ids_valid)


lemma cur_b_sel [simp]: "cursor_id cur_b = id_b" "cursor_v cur_b = None"
  by (simp_all add: cur_b_def)

section \<open>The codec on concrete tokens\<close>

text \<open>
  The model agrees with the platform on these: the token of
  \<open>{"id":"507f1f77bcf86cd799439011"}\<close>, and the token of the same cursor with the value
  \<open>a"b\<close>.
\<close>

lemma encodeCursor_example:
  "encodeCursor \<lparr>cursor_id = js ''507f1f77bcf86cd799439011'', cursor_v = None\<rparr>
     = js ''eyJpZCI6IjUwN2YxZjc3YmNmODZjZDc5OTQzOTAxMSJ9''"
  by (simp add: encodeCursor_def JSON_stringify_cursor_def QuoteJSONString_def js_def
      short_escape_def is_high_def is_low_def b64_char_def sx1_def sx2_def sx3_def sx4_def)

lemma encodeCursor_example2:
  "encodeCursor \<lparr>cursor_id = js ''507f1f77bcf86cd799439011'', cursor_v = Some [97, 34, 98]\<rparr>
     = js ''eyJpZCI6IjUwN2YxZjc3YmNmODZjZDc5OTQzOTAxMSIsInYiOiJhXCJiIn0=''"
  by (simp add: encodeCursor_def JSON_stringify_cursor_def QuoteJSONString_def js_def
      short_escape_def is_high_def is_low_def b64_char_def sx1_def sx2_def sx3_def sx4_def)

lemma decodeCursor_not_base64: "decodeCursor P (js ''abc'') = Inr None"
  by (simp add: decodeCursor_def CursorSchema_def js_def)

lemma decodeCursor_not_json: "decodeCursor P (js ''aGVsbG8='') = Inl SyntaxError"
  by (simp add: decodeCursor_def CursorSchema_def js_def b64_alpha_def b64_val_def sextet_def
      byte1_def byte2_def byte3_def JSON_parse_def is_digit_def)

lemma decodeCursor_not_object: "decodeCursor P (js ''NQ=='') = Inr None"
  by (simp add: decodeCursor_def CursorSchema_def js_def b64_alpha_def b64_val_def sextet_def
      byte1_def byte2_def byte3_def JSON_parse_def is_digit_def lex_number_def lex_sign_def
      lex_int_def lex_frac_def lex_exp_def lex_digits_def cons_token_def CursorObject_def)

text \<open>
  C7. For every valid decoded cursor \<open>c\<close>, an id that \<open>isObjectId\<close> accepts and an
  optional string \<open>v\<close>, decoding the token of \<open>c\<close> gives \<open>c\<close> back:
  \<open>decodeCursor (encodeCursor c) = c\<close>.
\<close>

theorem decodeCursor_encodeCursor:
  assumes "isObjectId (JStr (cursor_id c))"
    and "case cursor_v c of None \<Rightarrow> True | Some v \<Rightarrow> jsstring_ok v"
  shows "decodeCursor P (encodeCursor c) = Inr (Some (c :: DecodedCursor))"
  using assms by (rule decode_encode)

text \<open>
  An instance: a value with a quotation mark, a surrogate pair, a lone surrogate and a
  character outside ASCII.
\<close>

theorem decodeCursor_encodeCursor_witness:
  "isObjectId (JStr (cursor_id \<lparr>cursor_id = id_b, cursor_v = Some [97, 34, 55357, 56832, 56832, 233]\<rparr>))
   \<and> jsstring_ok [97, 34, 55357, 56832, 56832, 233]
   \<and> decodeCursor P0 (encodeCursor \<lparr>cursor_id = id_b, cursor_v = Some [97, 34, 55357, 56832, 56832, 233]\<rparr>)
       = Inr (Some \<lparr>cursor_id = id_b, cursor_v = Some [97, 34, 55357, 56832, 56832, 233]\<rparr>)"
  using decodeCursor_encodeCursor[of "\<lparr>cursor_id = id_b, cursor_v = Some [97, 34, 55357, 56832, 56832, 233]\<rparr>" P0]
  by (simp add: ids_valid jsstring_ok_def)

text \<open>
  C8. Cursor decoding on an arbitrary string. The claim is that it never raises. It
  does: a string that passes the \<open>base64\<close> check and does not hold a JSON text makes
  \<open>JSON.parse\<close> throw inside the transform, and zod 3 lets the exception through.
  \<open>aGVsbG8=\<close> is the token of \<open>hello\<close>; the second token holds
  \<open>{"id":"507f1f77bcf86cd799439011","v":{"toString":1}}\<close>, on which the coercion of
  \<open>v\<close> throws a \<open>TypeError\<close>.
\<close>

theorem decodeCursor_throws:
  "decodeCursor P (js ''aGVsbG8='') = Inl SyntaxError
   \<and> decodeCursor P
        (js ''eyJpZCI6IjUwN2YxZjc3YmNmODZjZDc5OTQzOTAxMSIsInYiOnsidG9TdHJpbmciOjF9fQ=='')
       = Inl TypeError"
proof -
  have 1: "decodeCursor P (js ''aGVsbG8='') = Inl SyntaxError"
    by (simp add: decodeCursor_def CursorSchema_def js_def b64_alpha_def b64_val_def sextet_def
        byte1_def byte2_def byte3_def JSON_parse_def is_digit_def)
  have 2: "decodeCursor P
        (js ''eyJpZCI6IjUwN2YxZjc3YmNmODZjZDc5OTQzOTAxMSIsInYiOnsidG9TdHJpbmciOjF9fQ=='')
       = Inl TypeError"
    by (simp add: decodeCursor_def CursorSchema_def js_def b64_alpha_def b64_val_def sextet_def
        byte1_def byte2_def byte3_def JSON_parse_def is_digit_def lex_number_def lex_sign_def
        lex_int_def lex_frac_def lex_exp_def lex_digits_def cons_token_def CursorObject_def
        cons_string_def unescape_def obj_get_def optional_string_def MongoIdSchema_def)
  show ?thesis using 1 2 by simp
qed

section \<open>The direction resolver\<close>

text \<open>
  The traversal mode of a request, in the words of the specification; its table of
  the current pair and the reverse flag (\<open>spec_current\<close>); and the table the code
  implements (\<open>code_current\<close>), which differs in the operator of the two initial rows.
\<close>

datatype mode = Initial | Forward | Backward

definition request_mode :: "PaginationFields \<Rightarrow> mode" where
  "request_mode q =
     (if truthy (prevCursor q) \<noteq> None then Backward
      else if truthy (nextCursor q) \<noteq> None then Forward
      else Initial)"

fun spec_current :: "SortOrderType \<Rightarrow> mode \<Rightarrow> (direction \<times> cmp_op) \<times> bool" where
  "spec_current Desc Initial = ((Minus1, Lt), False)"
| "spec_current Desc Forward = ((Minus1, Lt), False)"
| "spec_current Desc Backward = ((Plus1, Gt), True)"
| "spec_current Asc Initial = ((Plus1, Gt), False)"
| "spec_current Asc Forward = ((Plus1, Gt), False)"
| "spec_current Asc Backward = ((Minus1, Lt), True)"

fun code_current :: "SortOrderType \<Rightarrow> mode \<Rightarrow> (direction \<times> cmp_op) \<times> bool" where
  "code_current Desc Initial = ((Minus1, Gt), False)"
| "code_current Desc Forward = ((Minus1, Lt), False)"
| "code_current Desc Backward = ((Plus1, Gt), True)"
| "code_current Asc Initial = ((Plus1, Lt), False)"
| "code_current Asc Forward = ((Plus1, Gt), False)"
| "code_current Asc Backward = ((Minus1, Lt), True)"

lemma getQuery_order:
  assumes "getQuery P q parse base = Inr r"
  shows "(order_current (q_order r), q_reverse r) = code_current (order q) (request_mode q)"
    and "order_next (q_order r) = (if order q = Desc then (Plus1, Lt) else (Minus1, Gt))"
    and "order_prev (q_order r) = (if order q = Desc then (Minus1, Gt) else (Plus1, Lt))"
  using assms
  by (cases "order q";
      auto simp: getQuery_def request_mode_def Let_def
        split: option.splits sum.splits prod.splits)+

text \<open>
  C1, as the code has it, for a request on which \<open>_getQuery\<close> returns. The current
  pair and the reverse flag are those of \<open>code_current\<close>. The reverse flag and the sort
  direction are those of the specification's table in every mode, and in forward and
  backward mode the operator is too. In initial mode the operator is \<open>$gt\<close> for \<open>desc\<close>
  and \<open>$lt\<close> for \<open>asc\<close>, and no cursor filter is built from it: there is no cursor, and
  the filter is \<open>{}\<close>, or \<open>{ $and: [{}, baseFilters] }\<close>, which selects what the base
  filter selects. The mode is backward when \<open>prevCursor\<close> is set, and \<open>nextCursor\<close> is
  then not read; else forward when \<open>nextCursor\<close> is set; else initial
  (\<open>request_mode\<close>, where set means defined and not empty).
\<close>

theorem getQuery_current:
  "getQuery P q parse base = Inr r \<Longrightarrow>
     (order_current (q_order r), q_reverse r) = code_current (order q) (request_mode q)
     \<and> (request_mode q \<noteq> Initial \<longrightarrow>
          (order_current (q_order r), q_reverse r) = spec_current (order q) (request_mode q))
     \<and> fst (order_current (q_order r)) = fst (fst (spec_current (order q) (request_mode q)))
     \<and> q_reverse r = snd (spec_current (order q) (request_mode q))
     \<and> (request_mode q = Initial \<longrightarrow>
          snd (order_current (q_order r)) = (if order q = Desc then Gt else Lt)
          \<and> q_cursor r = None
          \<and> q_filter r = (case base of None \<Rightarrow> Obj [] | Some b \<Rightarrow> AndF [Obj [], BaseF b])
          \<and> matches (q_filter r) d = base_holds base d)
     \<and> (request_mode q = Backward \<longrightarrow>
          getQuery P (q\<lparr>nextCursor := x\<rparr>) parse base = getQuery P q parse base)"
proof -
  assume a: "getQuery P q parse base = Inr r"
  have 1: "(order_current (q_order r), q_reverse r) = code_current (order q) (request_mode q)"
    by (rule getQuery_order(1)[OF a])
  have 2: "request_mode q = Backward \<longrightarrow>
      getQuery P (q\<lparr>nextCursor := x\<rparr>) parse base = getQuery P q parse base"
    by (auto simp: getQuery_def request_mode_def split: option.splits if_splits)
  have 3: "request_mode q = Initial \<longrightarrow>
      q_cursor r = None
      \<and> q_filter r = (case base of None \<Rightarrow> Obj [] | Some b \<Rightarrow> AndF [Obj [], BaseF b])"
    using a
    by (auto simp: getQuery_def request_mode_def Let_def getFiltersFromCursor_def
        split: option.splits if_splits)
  have 4: "request_mode q = Initial \<longrightarrow> matches (q_filter r) d = base_holds base d"
    using 3 by (cases base) (auto simp: base_holds_def)
  have 5: "request_mode q = Initial \<longrightarrow>
      snd (order_current (q_order r)) = (if order q = Desc then Gt else Lt)"
    using 1 by (cases "order q") (auto simp: prod_eq_iff)
  have 6: "(request_mode q \<noteq> Initial \<longrightarrow>
          (order_current (q_order r), q_reverse r) = spec_current (order q) (request_mode q))
     \<and> fst (order_current (q_order r)) = fst (fst (spec_current (order q) (request_mode q)))
     \<and> q_reverse r = snd (spec_current (order q) (request_mode q))"
    using 1 by (cases "order q"; cases "request_mode q") auto
  show ?thesis
    using 1 2 3 4 5 6 by blast
qed

text \<open>
  Two instances: a request with both cursors in descending order, which is in backward
  mode, and a request without cursors in descending order, whose filter is \<open>{}\<close>.
\<close>

theorem getQuery_current_witness:
  "(\<exists>r. getQuery P0 \<lparr>nextCursor = Some (js ''x''), prevCursor = Some (encodeCursor c0), order = Desc,
                      limit = 10, sortBy = js ''_id''\<rparr> None None = Inr r
       \<and> (order_current (q_order r), q_reverse r) = ((Plus1, Gt), True)
       \<and> q_cursor r = Some c0)
   \<and> (\<exists>r. getQuery P0 \<lparr>nextCursor = None, prevCursor = None, order = Desc,
                      limit = 10, sortBy = js ''_id''\<rparr> None None = Inr r
       \<and> (order_current (q_order r), q_reverse r) = ((Minus1, Gt), False)
       \<and> q_cursor r = None \<and> q_filter r = Obj [])"
proof -
  let ?q = "\<lparr>nextCursor = Some (js ''x''), prevCursor = Some (encodeCursor c0), order = Desc,
                      limit = 10, sortBy = js ''_id''\<rparr>"
  let ?i = "\<lparr>nextCursor = None, prevCursor = None, order = Desc,
                      limit = 10, sortBy = js ''_id''\<rparr>"
  obtain r where r: "getQuery P0 ?q None None = Inr r" and c: "q_cursor r = Some c0"
    by (simp add: getQuery_def truthy_encode decode_encode[OF c0_valid] Let_def split: prod.splits)
  have m: "request_mode ?q = Backward"
    by (simp add: request_mode_def truthy_encode)
  have 1: "\<exists>r. getQuery P0 ?q None None = Inr r
       \<and> (order_current (q_order r), q_reverse r) = ((Plus1, Gt), True)
       \<and> q_cursor r = Some c0"
    using getQuery_current[OF r, of undefined undefined] r c m by simp
  obtain s where s: "getQuery P0 ?i None None = Inr s"
    by (simp add: getQuery_def truthy_None Let_def split: prod.splits)
  have n: "request_mode ?i = Initial"
    by (simp add: request_mode_def truthy_None)
  have 2: "\<exists>r. getQuery P0 ?i None None = Inr r
       \<and> (order_current (q_order r), q_reverse r) = ((Minus1, Gt), False)
       \<and> q_cursor r = None \<and> q_filter r = Obj []"
    using getQuery_current[OF s, of undefined undefined] s n by simp
  show ?thesis using 1 2 by blast
qed

text \<open>
  C1 as stated fails: for an initial request in descending order the pair is
  \<open>(-1, $gt)\<close>, not (descending, \<open><\<close>).
\<close>

theorem getQuery_current_counterexample:
  "\<not> (\<forall>P q parse base r. getQuery P q parse base = Inr r \<longrightarrow>
        (order_current (q_order r), q_reverse r) = spec_current (order q) (request_mode q))"
proof
  let ?q = "\<lparr>nextCursor = None, prevCursor = None, order = Desc, limit = 10, sortBy = js ''_id''\<rparr>"
  assume h: "\<forall>P q parse base r. getQuery P q parse base = Inr r \<longrightarrow>
        (order_current (q_order r), q_reverse r) = spec_current (order q) (request_mode q)"
  obtain r where r: "getQuery P0 ?q None None = Inr r"
    by (simp add: getQuery_def truthy_def Let_def split: prod.splits)
  have "(order_current (q_order r), q_reverse r) = ((Minus1, Gt), False)"
    using getQuery_order(1)[OF r] by (simp add: request_mode_def truthy_def)
  moreover have "(order_current (q_order r), q_reverse r) = ((Minus1, Lt), False)"
    using h r by (fastforce simp: request_mode_def truthy_def)
  ultimately show False by simp
qed

text \<open>
  The pairs of the two probes, as \<open>_getQuery\<close> stores them: they depend on \<open>order\<close>
  alone.
\<close>

lemma getQuery_probes:
  "getQuery P q parse base = Inr r \<Longrightarrow>
     order_next (q_order r) = (if order q = Desc then (Plus1, Lt) else (Minus1, Gt))
     \<and> order_prev (q_order r) = (if order q = Desc then (Minus1, Gt) else (Plus1, Lt))"
  using getQuery_order(2,3) by blast

text \<open>
  C2. The claim gives the probes the pairs (descending, \<open><\<close>) and (ascending, \<open>>\<close>) for
  \<open>desc\<close>, and (ascending, \<open>>\<close>) and (descending, \<open><\<close>) for \<open>asc\<close>. The operators are
  these. The directions are not: \<open>_getQuery\<close> stores \<open>next = [1, '$lt']\<close> and
  \<open>prev = [-1, '$gt']\<close> for \<open>desc\<close>, and \<open>next = [-1, '$gt']\<close> and \<open>prev = [1, '$lt']\<close>
  for \<open>asc\<close>, where the comment of \<open>QueryOrderResult\<close> calls the first item the required
  sorting direction, and \<open>order.current\<close> takes \<open>-1\<close> to walk forward in \<open>desc\<close>. Below,
  the query of a request without cursors in either order.
\<close>

theorem getQuery_probes_directions:
  "getQuery P0 \<lparr>nextCursor = None, prevCursor = None, order = Desc, limit = 10,
                 sortBy = js ''_id''\<rparr> None None
     = Inr \<lparr>q_filter = Obj [], q_cursor = None, q_sort = [(js ''_id'', Minus1)],
            q_order = \<lparr>order_current = (Minus1, Gt), order_next = (Plus1, Lt),
                        order_prev = (Minus1, Gt)\<rparr>,
            q_reverse = False, q_limit = 10\<rparr>
   \<and> getQuery P0 \<lparr>nextCursor = None, prevCursor = None, order = Asc, limit = 10,
                   sortBy = js ''_id''\<rparr> None None
     = Inr \<lparr>q_filter = Obj [], q_cursor = None, q_sort = [(js ''_id'', Plus1)],
            q_order = \<lparr>order_current = (Plus1, Lt), order_next = (Minus1, Gt),
                        order_prev = (Plus1, Lt)\<rparr>,
            q_reverse = False, q_limit = 10\<rparr>"
  by (simp add: getQuery_def truthy_None Let_def getFiltersFromCursor_def)

section \<open>An invalid \<open>prevCursor\<close>\<close>

fun opposite :: "direction \<Rightarrow> direction" where
  "opposite Minus1 = Plus1"
| "opposite Plus1 = Minus1"

definition backward_of :: "Query \<Rightarrow> Query" where
  "backward_of q0 =
     q0\<lparr>q_sort := map (\<lambda>(name, d). (name, opposite d)) (q_sort q0),
        q_order := (q_order q0)
          \<lparr>order_current :=
             (opposite (fst (order_current (q_order q0))), snd (order_current (q_order q0)))\<rparr>,
        q_reverse := True\<rparr>"

lemma getQuery_initial:
  "getQuery P (q\<lparr>nextCursor := None, prevCursor := None\<rparr>) parse base =
     Inr \<lparr>q_filter = fst (getFiltersFromCursor None
                          (if order q = Desc then (Minus1, Gt) else (Plus1, Lt))
                          \<lparr>sort_by = sortBy q, sort_parse = parse\<rparr> base),
           q_cursor = None,
           q_sort = snd (getFiltersFromCursor None
                          (if order q = Desc then (Minus1, Gt) else (Plus1, Lt))
                          \<lparr>sort_by = sortBy q, sort_parse = parse\<rparr> base),
           q_order = \<lparr>order_current = (if order q = Desc then (Minus1, Gt) else (Plus1, Lt)),
                       order_next = (if order q = Desc then (Plus1, Lt) else (Minus1, Gt)),
                       order_prev = (if order q = Desc then (Minus1, Gt) else (Plus1, Lt))\<rparr>,
           q_reverse = False, q_limit = limit q\<rparr>"
  by (simp add: getQuery_def truthy_def Let_def split: prod.splits)

lemma getQuery_invalid_prev:
  assumes "truthy (prevCursor q) = Some t" "decodeCursor P t = Inr None"
  shows "\<exists>q0. getQuery P (q\<lparr>nextCursor := None, prevCursor := None\<rparr>) parse base = Inr q0
           \<and> getQuery P q parse base = Inr (backward_of q0)"
  unfolding getQuery_initial using assms
  by (cases "order q")
    (simp_all add: getQuery_def Let_def backward_of_def getFiltersFromCursor_def split: prod.splits)

lemma respond_data:
  "data (respond P store opts q) =
     (if q_reverse q then rev (find_docs store (q_filter q) (q_sort q) (q_limit q))
      else find_docs store (q_filter q) (q_sort q) (q_limit q))"
  by (simp add: respond_def Let_def)

text \<open>
  A request whose \<open>prevCursor\<close> is set and on which \<open>decodeCursor\<close> returns \<open>null\<close>. The query is the
  query of the same request without cursors (\<open>q0\<close>), with the sort direction turned
  round and the reverse flag set (\<open>backward_of q0\<close>): no cursor filter is applied, the
  filter being the initial one, which selects what the base filter selects; the fetch
  runs in the backward order and is reversed in memory; and the response is
  \<open>respond\<close> on that query.
\<close>

lemma invalid_prevCursor_null:
  assumes "truthy (prevCursor (pagination opts)) = Some t" and "decodeCursor P t = Inr None"
  shows "\<exists>q0. getQuery P ((pagination opts)\<lparr>nextCursor := None, prevCursor := None\<rparr>)
                 (parseSortValue opts) (filters opts) = Inr q0
           \<and> getQuery P (pagination opts) (parseSortValue opts) (filters opts) = Inr (backward_of q0)
           \<and> q_filter (backward_of q0) = q_filter q0
           \<and> matches (q_filter q0) d = base_holds (filters opts) d
           \<and> q_cursor (backward_of q0) = None
           \<and> q_reverse (backward_of q0) = True
           \<and> paginate P store opts = Inr (respond P store opts (backward_of q0))
           \<and> data (respond P store opts (backward_of q0)) =
               rev (find_docs store (q_filter q0)
                      (map (\<lambda>(name, d). (name, opposite d)) (q_sort q0)) (limit (pagination opts)))"
proof -
  obtain q0 where
    q0: "getQuery P ((pagination opts)\<lparr>nextCursor := None, prevCursor := None\<rparr>)
                 (parseSortValue opts) (filters opts) = Inr q0"
    and q: "getQuery P (pagination opts) (parseSortValue opts) (filters opts) = Inr (backward_of q0)"
    using getQuery_invalid_prev[OF assms] by blast
  have f: "matches (q_filter q0) d = base_holds (filters opts) d" "q_cursor q0 = None"
    "q_limit q0 = limit (pagination opts)"
    using q0 unfolding getQuery_initial
    by (auto simp: getFiltersFromCursor_def Let_def matches_withBase)
  show ?thesis
    using q0 q f by (simp add: paginate_def respond_data) (simp add: backward_of_def)
qed

text \<open>
  An instance: \<open>abc\<close> is not a token. In descending order with pages of two, the
  response holds the last two documents of the order, \<open>doc_b\<close> and \<open>doc_a\<close>.
\<close>

lemma invalid_prevCursor_null_instance:
  "truthy (prevCursor (pagination (request3 None (Some (js ''abc''))))) = Some (js ''abc'')
   \<and> decodeCursor P0 (js ''abc'') = Inr None
   \<and> (\<exists>r. paginate P0 store3 (request3 None (Some (js ''abc''))) = Inr r
          \<and> data r = [doc_b, doc_a])"
proof -
  let ?R = "request3 None (Some (js ''abc''))"
  have 1: "truthy (prevCursor (pagination ?R)) = Some (js ''abc'')"
    by (simp add: request3_def truthy_def js_def)
  have 2: "decodeCursor P0 (js ''abc'') = Inr None"
    by (rule decodeCursor_not_base64)
  obtain q0 where
    q0: "getQuery P0 ((pagination ?R)\<lparr>nextCursor := None, prevCursor := None\<rparr>)
           (parseSortValue ?R) (filters ?R) = Inr q0"
    and p: "paginate P0 store3 ?R = Inr (respond P0 store3 ?R (backward_of q0))"
    and d: "data (respond P0 store3 ?R (backward_of q0)) =
               rev (find_docs store3 (q_filter q0)
                      (map (\<lambda>(name, d). (name, opposite d)) (q_sort q0)) (limit (pagination ?R)))"
    using invalid_prevCursor_null[OF 1 2, of doc_a store3] by blast
  have "q_filter q0 = Obj []" "q_sort q0 = [(js ''_id'', Minus1)]"
    using q0 unfolding getQuery_initial
    by (auto simp: request3_def getFiltersFromCursor_def)
  then have "data (respond P0 store3 ?R (backward_of q0)) = [doc_b, doc_a]"
    using d by (simp add: request3_def find_all_asc)
  then show ?thesis using 1 2 p by simp
qed

text \<open>
  C9. The claim covers every \<open>prevCursor\<close> that fails to decode. A string that passes
  the \<open>base64\<close> check and does not hold a JSON text fails to decode by making
  \<open>decodeCursor\<close> throw: \<open>_getQuery\<close> and \<open>paginate\<close> throw with it, and there is no
  response. \<open>aGVsbG8=\<close> is such a string.
\<close>

theorem invalid_prevCursor_throws:
  "paginate P0 store3 (request3 None (Some (js ''aGVsbG8=''))) = Inl SyntaxError
   \<and> decodeCursor P0 (js ''aGVsbG8='') = Inl SyntaxError"
proof -
  have "truthy (Some (js ''aGVsbG8='')) = Some (js ''aGVsbG8='')"
    by (simp add: truthy_def js_def)
  then show ?thesis
    by (simp add: paginate_def getQuery_def request3_def decodeCursor_not_json)
qed

section \<open>A short page on the way back\<close>

text \<open>
  The request: pages of two in descending order, with the \<open>prevCursor\<close> of \<open>doc_b\<close>.
  The fetch finds \<open>doc_c\<close> alone, fewer than the limit, so no next probe is issued.
\<close>

lemma getQuery_prev_b:
  "getQuery P0 (pagination (request3 None (Some (encodeCursor cur_b))))
       (parseSortValue (request3 None (Some (encodeCursor cur_b))))
       (filters (request3 None (Some (encodeCursor cur_b)))) =
     Inr \<lparr>q_filter = Obj [(js ''_id'', Cmp Gt (Some (VStr id_b)))],
          q_cursor = Some cur_b,
          q_sort = [(js ''_id'', Plus1)],
          q_order = \<lparr>order_current = (Plus1, Gt), order_next = (Plus1, Lt),
                      order_prev = (Minus1, Gt)\<rparr>,
          q_reverse = True, q_limit = 2\<rparr>"
  by (simp add: request3_def getQuery_def truthy_encode decode_encode[OF cur_b_valid] Let_def
      getFiltersFromCursor_def)

lemma matches_id:
  "matches (Obj [(js ''_id'', Cmp op (Some (VStr i)))]) d = op_holds op (doc_id d) i"
  by (simp add: sat_cond_id)

lemma doc_ids [simp]: "doc_id doc_a = id_a" "doc_id doc_b = id_b" "doc_id doc_c = id_c"
  by (simp_all add: doc_a_def doc_b_def doc_c_def)

lemma paginate_prev_b:
  "paginate P0 store3 (request3 None (Some (encodeCursor cur_b))) =
     Inr \<lparr>data = [doc_c], totalCount = 1, next_cursor = None, prev_cursor = None\<rparr>"
proof -
  have f: "find_docs store3 (Obj [(js ''_id'', Cmp Gt (Some (VStr id_b)))]) [(js ''_id'', Plus1)] 2
      = [doc_c]"
    using ids_less
    by (simp add: find_docs_def store3_def matches_id op_holds_def sort_key_of_def
        del: matches.simps)
  have p: "countDocuments store3
      (fst (getFiltersFromCursor (Some (doc_cursor P0 (js ''_id'') doc_c)) (Minus1, Gt)
         \<lparr>sort_by = js ''_id'', sort_parse = None\<rparr> None)) = 0"
    using ids_less
    by (simp add: countDocuments_def store3_def getFiltersFromCursor_def doc_cursor_def
        matches_id op_holds_def del: matches.simps)
  show ?thesis
    unfolding paginate_def getQuery_prev_b
    by (simp add: respond_def f p Let_def request3_def)
qed

lemma count_all: "countDocuments store3 (Obj []) = 3"
  by (simp add: countDocuments_def store3_def)

lemma count_after_c:
  "countDocuments store3
      (fst (getFiltersFromCursor (Some (doc_cursor P0 (js ''_id'') doc_c)) (Plus1, Lt)
         \<lparr>sort_by = js ''_id'', sort_parse = None\<rparr> None)) = 2"
  using ids_less
  by (simp add: countDocuments_def store3_def getFiltersFromCursor_def doc_cursor_def
      matches_id op_holds_def del: matches.simps)

text \<open>The token of \<open>cur_b\<close> is one that \<open>paginate\<close> hands out: with a limit of 1, the page
  after the first is \<open>doc_b\<close>, and its \<open>prevCursor\<close> is this token.\<close>

lemma cur_c_valid:
  "isObjectId (JStr (cursor_id \<lparr>cursor_id = id_c, cursor_v = None\<rparr>))"
  "case cursor_v \<lparr>cursor_id = id_c, cursor_v = None\<rparr> of None \<Rightarrow> True | Some v \<Rightarrow> jsstring_ok v"
  by (simp_all add: ids_valid)

lemma token_issued:
  "paginate P0 store3
     ((request3 (Some (encodeCursor \<lparr>cursor_id = id_c, cursor_v = None\<rparr>)) None)
        \<lparr>pagination := (pagination (request3 (Some (encodeCursor \<lparr>cursor_id = id_c, cursor_v = None\<rparr>)) None))
           \<lparr>limit := 1\<rparr>\<rparr>) =
     Inr \<lparr>data = [doc_b], totalCount = 3,
          next_cursor = Some (encodeCursor cur_b), prev_cursor = Some (encodeCursor cur_b)\<rparr>"
proof -
  have f: "find_docs store3 (Obj [(js ''_id'', Cmp Lt (Some (VStr id_c)))]) [(js ''_id'', Minus1)]
      (Suc 0) = [doc_b]"
    using ids_less
    by (simp add: find_docs_def store3_def matches_id op_holds_def sort_key_of_def
        get_field_def nz_def del: matches.simps)
  have p: "countDocuments store3 (Obj [(js ''_id'', Cmp Gt (Some (VStr id_b)))]) = 1"
    "countDocuments store3 (Obj [(js ''_id'', Cmp Lt (Some (VStr id_b)))]) = 1"
    using ids_less
    by (simp_all add: countDocuments_def store3_def matches_id op_holds_def del: matches.simps)
  show ?thesis
    unfolding paginate_def
    by (simp add: request3_def getQuery_def truthy_encode truthy_None decode_encode[OF cur_c_valid]
        Let_def getFiltersFromCursor_def respond_def f p doc_cursor_def cur_b_def)
qed

text \<open>
  C3. \<open>totalCount\<close> is to be the number of documents that match the filter, whatever
  cursor the request carries. It is not on a short page reached by \<open>prevCursor\<close>: the
  gate \<open>docs.length === limit\<close> skips the next probe, and the documents after the page
  are not counted. Here three documents match and \<open>totalCount\<close> is 1.
\<close>

theorem totalCount_backward_short_page:
  "paginate P0 store3 (request3 None (Some (encodeCursor cur_b))) =
     Inr \<lparr>data = [doc_c], totalCount = 1, next_cursor = None, prev_cursor = None\<rparr>
   \<and> countDocuments store3 (Obj []) = 3"
  using paginate_prev_b count_all by simp

text \<open>
  C5. \<open>nextCursor\<close> is to be \<open>null\<close> only if no document satisfies the next predicate
  relative to the last document of the page. On the same request it is \<open>null\<close> although
  two documents satisfy it.
\<close>

theorem nextCursor_backward_short_page:
  "\<exists>r. paginate P0 store3 (request3 None (Some (encodeCursor cur_b))) = Inr r
       \<and> next_cursor r = None
       \<and> last (data r) = doc_c
       \<and> countDocuments store3
            (fst (getFiltersFromCursor (Some (doc_cursor P0 (js ''_id'') (last (data r))))
                    (Plus1, Lt) \<lparr>sort_by = js ''_id'', sort_parse = None\<rparr> None)) = 2"
  using paginate_prev_b count_after_c by simp


section \<open>An instance of the filter builder\<close>

text \<open>
  Sorting by \<open>age\<close>, ascending, after the cursor \<open>{ id: bbb\<dots>, v: "5" }\<close>: the document
  \<open>aaa\<dots>\<close> of age \<open>"7"\<close> is selected by clause (a), the document \<open>ccc\<dots>\<close> of age
  \<open>"5"\<close> by clause (b), and the document \<open>aaa\<dots>\<close> of age \<open>"5"\<close> by neither.
\<close>

theorem getFiltersFromCursor_meaning_witness:
  "js ''age'' \<noteq> js ''_id''
   \<and> matches (fst (getFiltersFromCursor (Some \<lparr>cursor_id = id_b, cursor_v = Some (js ''5'')\<rparr>)
          (Plus1, Gt) \<lparr>sort_by = js ''age'', sort_parse = None\<rparr> None))
        \<lparr>doc_id = id_a, doc_fields = [(js ''age'', VStr (js ''7''))]\<rparr>
   \<and> matches (fst (getFiltersFromCursor (Some \<lparr>cursor_id = id_b, cursor_v = Some (js ''5'')\<rparr>)
          (Plus1, Gt) \<lparr>sort_by = js ''age'', sort_parse = None\<rparr> None))
        \<lparr>doc_id = id_c, doc_fields = [(js ''age'', VStr (js ''5''))]\<rparr>
   \<and> \<not> matches (fst (getFiltersFromCursor (Some \<lparr>cursor_id = id_b, cursor_v = Some (js ''5'')\<rparr>)
          (Plus1, Gt) \<lparr>sort_by = js ''age'', sort_parse = None\<rparr> None))
        \<lparr>doc_id = id_a, doc_fields = [(js ''age'', VStr (js ''5''))]\<rparr>"
proof -
  let ?srt = "\<lparr>sort_by = js ''age'', sort_parse = None\<rparr>"
  have n: "js ''age'' \<noteq> js ''_id''" by (simp add: js_def)
  have s: "sort_by ?srt \<noteq> js ''_id''" using n by simp
  note m = getFiltersFromCursor_meaning[where srt = ?srt and i = id_b and v = "js ''5''"
      and op = Gt and dir = Plus1 and baseFilters = None and cursor = None]
  have 1: "matches (fst (getFiltersFromCursor (Some \<lparr>cursor_id = id_b, cursor_v = Some (js ''5'')\<rparr>)
          (Plus1, Gt) ?srt None)) \<lparr>doc_id = id_a, doc_fields = [(js ''age'', VStr (js ''7''))]\<rparr>"
    using m[where d = "\<lparr>doc_id = id_a, doc_fields = [(js ''age'', VStr (js ''7''))]\<rparr>"] s
    by (simp add: sat_cond_def parsed_value_def get_field_def nz_def base_holds_def js_def)
  have 2: "matches (fst (getFiltersFromCursor (Some \<lparr>cursor_id = id_b, cursor_v = Some (js ''5'')\<rparr>)
          (Plus1, Gt) ?srt None)) \<lparr>doc_id = id_c, doc_fields = [(js ''age'', VStr (js ''5''))]\<rparr>"
    using m[where d = "\<lparr>doc_id = id_c, doc_fields = [(js ''age'', VStr (js ''5''))]\<rparr>"] s ids_less
    by (simp add: sat_cond_def parsed_value_def get_field_def nz_def base_holds_def js_def
        op_holds_def)
  have 3: "\<not> matches (fst (getFiltersFromCursor (Some \<lparr>cursor_id = id_b, cursor_v = Some (js ''5'')\<rparr>)
          (Plus1, Gt) ?srt None)) \<lparr>doc_id = id_a, doc_fields = [(js ''age'', VStr (js ''5''))]\<rparr>"
    using m[where d = "\<lparr>doc_id = id_a, doc_fields = [(js ''age'', VStr (js ''5''))]\<rparr>"] s ids_less
    by (simp add: sat_cond_def parsed_value_def get_field_def nz_def base_holds_def js_def
        op_holds_def)
  show ?thesis using n 1 2 3 by blast
qed

text \<open>
  C6 as stated fails when the sort field is \<open>_id\<close> and the cursor has a \<open>v\<close>. For the
  cursor \<open>{ id: aaa\<dots>, v: ccc\<dots> }\<close> and the operator \<open>$gt\<close>, the filter built selects the
  document \<open>bbb\<dots>\<close>, whose \<open>_id\<close> is neither greater than \<open>v\<close> nor equal to it; and the
  sort is \<open>{ _id: 1 }\<close>, with one entry.
\<close>

theorem getFiltersFromCursor_meaning_counterexample:
  "matches (fst (getFiltersFromCursor (Some \<lparr>cursor_id = id_a, cursor_v = Some id_c\<rparr>)
          (Plus1, Gt) \<lparr>sort_by = js ''_id'', sort_parse = None\<rparr> None)) doc_b
   \<and> \<not> (sat_cond (Cmp Gt (Some (VStr id_c))) (get_field doc_b (js ''_id''))
          \<or> (sat_cond (Eq (Some (VStr id_c))) (get_field doc_b (js ''_id''))
              \<and> op_holds Gt (doc_id doc_b) id_a))
   \<and> snd (getFiltersFromCursor (Some \<lparr>cursor_id = id_a, cursor_v = Some id_c\<rparr>)
          (Plus1, Gt) \<lparr>sort_by = js ''_id'', sort_parse = None\<rparr> None)
       = [(js ''_id'', Plus1)]"
  using ids_less
  by (simp add: getFiltersFromCursor_def Let_def sat_cond_def get_field_def nz_def op_holds_def
      doc_b_def)

section \<open>Following the next cursor\<close>












definition continue_from :: "PaginateOpts \<Rightarrow> jsstring option \<Rightarrow> PaginateOpts" where
  "continue_from opts cur =
     opts\<lparr>pagination := (pagination opts)\<lparr>nextCursor := cur, prevCursor := None\<rparr>\<rparr>"


definition doc_x :: doc where
  "doc_x = \<lparr>doc_id = id_a, doc_fields = [(js ''name'', VStr (js ''k''))]\<rparr>"

definition doc_y :: doc where
  "doc_y = \<lparr>doc_id = id_b, doc_fields = [(js ''name'', VStr (js ''k''))]\<rparr>"

definition doc_z :: doc where
  "doc_z = \<lparr>doc_id = id_c, doc_fields = [(js ''name'', VStr (js ''j''))]\<rparr>"
























lemma continue_from_simps [simp]:
  "sortBy (pagination (continue_from opts cur)) = sortBy (pagination opts)"
  "order (pagination (continue_from opts cur)) = order (pagination opts)"
  "limit (pagination (continue_from opts cur)) = limit (pagination opts)"
  "filters (continue_from opts cur) = filters opts"
  "parseSortValue (continue_from opts cur) = parseSortValue opts"
  by (simp_all add: continue_from_def)






text \<open>The store with names: it is \<open>traversable\<close>, and its requested order.\<close>

lemma name_not_id: "js ''name'' \<noteq> js ''_id''" "js ''name'' \<noteq> js ''id''"
  by (simp_all add: js_def)



lemma named_fields [simp]:
  "get_field doc_x (js ''name'') = Some (VStr (js ''k''))"
  "get_field doc_y (js ''name'') = Some (VStr (js ''k''))"
  "get_field doc_z (js ''name'') = Some (VStr (js ''j''))"
  "get_field doc_a (js ''name'') = None"
  "get_field doc_c (js ''name'') = None"
  "doc_id doc_x = id_a" "doc_id doc_y = id_b" "doc_id doc_z = id_c"
  by (simp_all add: get_field_def name_not_id doc_x_def doc_y_def doc_z_def doc_a_def doc_c_def)
















end
